theory Spec2Isabelle
  imports Main "HOL-Library.Word" "HOL-Library.Monad_Syntax"
begin

section \<open>Python strings and number formatting\<close>

text \<open>
  The rigging scripts build node names with f-strings and take them apart with
  \<^verbatim>\<open>startswith\<close>, \<^verbatim>\<open>endswith\<close>, slicing and \<^verbatim>\<open>replace\<close>.
  Python strings are modelled as \<^typ>\<open>string\<close>; every name in the scripts is ASCII.
\<close>

definition digit_char :: "nat \<Rightarrow> char" where
  "digit_char d = ''0123456789'' ! d"

text \<open>Decimal digits of a natural number, most significant first, no leading zero.\<close>

fun dec_nat :: "nat \<Rightarrow> string" where
  "dec_nat n = (if n < 10 then [digit_char n] else dec_nat (n div 10) @ [digit_char (n mod 10)])"

declare dec_nat.simps [simp del]

text \<open>\<^verbatim>\<open>f"{i}"\<close> for a Python int.\<close>

definition py_str :: "int \<Rightarrow> string" where
  "py_str i = (if i < 0 then CHR ''-'' # dec_nat (nat (- i)) else dec_nat (nat i))"

text \<open>
  \<^verbatim>\<open>f"{i:02d}"\<close>: zero padding to a minimum width of two. A negative number already
  has width two or more (sign and one digit), so padding only ever applies to the
  non-negative one-digit numbers.
\<close>

definition fmt_02d :: "int \<Rightarrow> string" where
  "fmt_02d i = (let s = py_str i in replicate (2 - length s) CHR ''0'' @ s)"

text \<open>\<^verbatim>\<open>range(a, b)\<close> with step one; empty when \<open>b \<le> a\<close>.\<close>

definition range_py :: "int \<Rightarrow> int \<Rightarrow> int list" where
  "range_py a b = [a..b - 1]"

definition startswith :: "string \<Rightarrow> string \<Rightarrow> bool" where
  "startswith s p = (take (length p) s = p)"

definition endswith :: "string \<Rightarrow> string \<Rightarrow> bool" where
  "endswith s p = (length p \<le> length s \<and> drop (length s - length p) s = p)"

text \<open>
  \<^verbatim>\<open>s.replace(old, new)\<close>: every non-overlapping occurrence of \<open>old\<close>, scanning
  from the left. With an empty \<open>old\<close> Python inserts \<open>new\<close> before every character and
  at the end.
\<close>

fun replace_scan :: "string \<Rightarrow> string \<Rightarrow> string \<Rightarrow> string" where
  "replace_scan old new [] = []"
| "replace_scan old new (c # cs) =
     (if old \<noteq> [] \<and> take (length old) (c # cs) = old
      then new @ replace_scan old new (drop (length old) (c # cs))
      else c # replace_scan old new cs)"

definition py_replace :: "string \<Rightarrow> string \<Rightarrow> string \<Rightarrow> string" where
  "py_replace old new s =
     (if old = [] then new @ concat (map (\<lambda>c. c # new) s) else replace_scan old new s)"

section \<open>The rig spec (AuttoRigger.py)\<close>

text \<open>
  A step of the spec is the Python dict with the keys \<^verbatim>\<open>key\<close>, \<^verbatim>\<open>name\<close>,
  \<^verbatim>\<open>parent\<close>, \<^verbatim>\<open>side\<close> and \<^verbatim>\<open>required\<close>; \<^verbatim>\<open>parent\<close> is a name or
  \<^verbatim>\<open>None\<close>. The spec is the ordered list of these dicts.
\<close>

record entry =
  key :: string
  name :: string
  parent :: "string option"
  side :: string
  required :: bool

subsection \<open>Name helpers\<close>

text \<open>\<^verbatim>\<open>swap_LR\<close>: strict swap of the prefixes \<^verbatim>\<open>L_\<close> and \<^verbatim>\<open>R_\<close>.\<close>

definition swap_LR :: "string \<Rightarrow> string" where
  "swap_LR nm =
     (if startswith nm ''L_'' then ''R_'' @ drop 2 nm
      else if startswith nm ''R_'' then ''L_'' @ drop 2 nm
      else nm)"

text \<open>
  \<^verbatim>\<open>guide_name_for_joint\<close>:
  \<^verbatim>\<open>joint_name.replace("_Jnt", "_Guide").replace("_FK_", "_FK_")\<close>.
\<close>

definition guide_name_for_joint :: "string \<Rightarrow> string" where
  "guide_name_for_joint joint_name =
     py_replace ''_FK_'' ''_FK_'' (py_replace ''_Jnt'' ''_Guide'' joint_name)"

subsection \<open>\<^verbatim>\<open>build_base_spec\<close>\<close>

text \<open>
  The two \<^verbatim>\<open>for\<close> loops append one step per index and carry the name of the step
  appended last in \<^verbatim>\<open>prev\<close>; the loop state is the pair of the list and \<^verbatim>\<open>prev\<close>.
\<close>

fun spine_loop :: "int list \<Rightarrow> entry list \<times> string \<Rightarrow> entry list \<times> string" where
  "spine_loop [] (spec, prev) = (spec, prev)"
| "spine_loop (i # ns) (spec, prev) =
     (let j = ''Spine_'' @ fmt_02d i @ ''_FK_Jnt''
      in spine_loop ns
           (spec @ [\<lparr>key = ''SPN'' @ py_str i, name = j, parent = Some prev,
                     side = ''C'', required = True\<rparr>], j))"

fun neck_loop :: "int list \<Rightarrow> entry list \<times> string \<Rightarrow> entry list \<times> string" where
  "neck_loop [] (spec, prev) = (spec, prev)"
| "neck_loop (i # ns) (spec, prev) =
     (let j = ''Neck_'' @ fmt_02d i @ ''_FK_Jnt''
      in neck_loop ns
           (spec @ [\<lparr>key = ''NCK'' @ py_str i, name = j, parent = Some prev,
                     side = ''C'', required = True\<rparr>], j))"

definition build_base_spec :: "int \<Rightarrow> int \<Rightarrow> entry list" where
  "build_base_spec spine_count neck_count =
     (let spec = [];
          spec = spec @ [\<lparr>key = ''COG'', name = ''COG_FK_Jnt'', parent = None,
                          side = ''C'', required = True\<rparr>];
          spec = spec @ [\<lparr>key = ''PELV'', name = ''Pelvis_FK_Jnt'', parent = Some ''COG_FK_Jnt'',
                          side = ''C'', required = True\<rparr>];
          prev = ''Pelvis_FK_Jnt'';
          (spec, prev) = spine_loop (range_py 1 (spine_count + 1)) (spec, prev);
          spec = spec @ [\<lparr>key = ''CHEST'', name = ''Chest_FK_Jnt'', parent = Some prev,
                          side = ''C'', required = True\<rparr>];
          chest = ''Chest_FK_Jnt'';
          prev = chest;
          (spec, prev) = neck_loop (range_py 1 (neck_count + 1)) (spec, prev);
          spec = spec @ [\<lparr>key = ''HEAD'', name = ''Head_FK_Jnt'', parent = Some prev,
                          side = ''C'', required = True\<rparr>];
          spec = spec @
            [\<lparr>key = ''L_CLAV'', name = ''L_Clav_FK_Jnt'', parent = Some chest,
               side = ''L'', required = True\<rparr>,
             \<lparr>key = ''L_ARM1'', name = ''L_Arm_01_FK_Jnt'', parent = Some ''L_Clav_FK_Jnt'',
               side = ''L'', required = True\<rparr>,
             \<lparr>key = ''L_ARM2'', name = ''L_Arm_02_FK_Jnt'', parent = Some ''L_Arm_01_FK_Jnt'',
               side = ''L'', required = True\<rparr>,
             \<lparr>key = ''L_ARM3'', name = ''L_Arm_03_FK_Jnt'', parent = Some ''L_Arm_02_FK_Jnt'',
               side = ''L'', required = True\<rparr>,
             \<lparr>key = ''L_HAND'', name = ''L_Hand_FK_Jnt'', parent = Some ''L_Arm_03_FK_Jnt'',
               side = ''L'', required = True\<rparr>];
          spec = spec @
            [\<lparr>key = ''L_LEGCLAV'', name = ''L_Leg_Clav_FK_Jnt'', parent = Some ''Pelvis_FK_Jnt'',
               side = ''L'', required = True\<rparr>,
             \<lparr>key = ''L_LEG1'', name = ''L_Leg_01_FK_Jnt'', parent = Some ''L_Leg_Clav_FK_Jnt'',
               side = ''L'', required = True\<rparr>,
             \<lparr>key = ''L_LEG2'', name = ''L_Leg_02_FK_Jnt'', parent = Some ''L_Leg_01_FK_Jnt'',
               side = ''L'', required = True\<rparr>,
             \<lparr>key = ''L_LEG3'', name = ''L_Leg_03_FK_Jnt'', parent = Some ''L_Leg_02_FK_Jnt'',
               side = ''L'', required = True\<rparr>,
             \<lparr>key = ''L_FOOT1'', name = ''L_Foot_01_FK_Jnt'', parent = Some ''L_Leg_03_FK_Jnt'',
               side = ''L'', required = True\<rparr>,
             \<lparr>key = ''L_FOOT2'', name = ''L_Foot_02_FK_Jnt'', parent = Some ''L_Foot_01_FK_Jnt'',
               side = ''L'', required = True\<rparr>,
             \<lparr>key = ''L_FOOT3'', name = ''L_Foot_03_FK_Jnt'', parent = Some ''L_Foot_02_FK_Jnt'',
               side = ''L'', required = False\<rparr>]
      in spec)"

subsection \<open>\<^verbatim>\<open>append_fingers\<close>\<close>

text \<open>
  The inner loop runs over the segments of one finger, the outer loop over the fingers;
  \<^verbatim>\<open>prev\<close> is reset to the hand at the start of every finger. The Python function
  appends to the list it is given and returns it; the model returns the extended list.
\<close>

fun segment_loop :: "int \<Rightarrow> int list \<Rightarrow> entry list \<times> string \<Rightarrow> entry list \<times> string" where
  "segment_loop f [] (spec, prev) = (spec, prev)"
| "segment_loop f (s # ss) (spec, prev) =
     (let j = ''L_Finger_'' @ fmt_02d f @ ''_'' @ fmt_02d s @ ''_FK_Jnt''
      in segment_loop f ss
           (spec @ [\<lparr>key = ''L_F'' @ py_str f @ ''_'' @ py_str s, name = j, parent = Some prev,
                     side = ''L'', required = True\<rparr>], j))"

fun finger_loop :: "int list \<Rightarrow> int \<Rightarrow> entry list \<Rightarrow> entry list" where
  "finger_loop [] segments spec = spec"
| "finger_loop (f # fs) segments spec =
     (let prev = ''L_Hand_FK_Jnt'';
          (spec, prev) = segment_loop f (range_py 1 (segments + 1)) (spec, prev)
      in finger_loop fs segments spec)"

definition append_fingers :: "entry list \<Rightarrow> int \<Rightarrow> int \<Rightarrow> entry list" where
  "append_fingers spec finger_count segments =
     finger_loop (range_py 1 (finger_count + 1)) segments spec"

section \<open>The scene graph seen by the wizard\<close>

text \<open>
  The scripts run inside the host application and act on its scene through
  \<^verbatim>\<open>maya.cmds\<close>. The host is not part of the repository; the model below keeps the
  part of the scene that the wizard reads and writes:
  \<^item> the transform nodes of the scene by name (groups, locators and joints), each with
    its type, its parent and its world-space transform;
  \<^item> the current selection, a list of names; a selected name that is not a transform
    node (a vertex, a shape) is simply not in the node table;
  \<^item> the numeric attributes the wizard sets, by plug name \<^verbatim>\<open>node.attr\<close>;
  \<^item> the warnings and the in-view messages emitted so far.

  A coordinate is a Python float, an IEEE 754 double, kept as its 64 bits. Unary minus
  flips the sign bit and changes nothing else.
\<close>

type_synonym double = "64 word"

type_synonym vec3 = "double \<times> double \<times> double"

definition fneg :: "double \<Rightarrow> double" where
  "fneg x = xor x (push_bit 63 1)"

definition fzero :: double where
  "fzero = 0"

definition fone :: double where
  "fone = 0x3FF0000000000000"

text \<open>
  The world matrix of a node carries its world translation, rotation and scale; the
  model keeps the three parts and reads \<^verbatim>\<open>xform(q=True, ws=True, m=True)\<close> as the
  whole record.
\<close>

record matrix =
  translation :: vec3
  rotation :: vec3
  scaling :: vec3

definition identity_matrix :: matrix where
  "identity_matrix =
     \<lparr>translation = (fzero, fzero, fzero), rotation = (fzero, fzero, fzero),
      scaling = (fone, fone, fone)\<rparr>"

record node =
  is_joint :: bool
  node_parent :: "string option"
  world :: matrix

record scene =
  nodes :: "string \<rightharpoonup> node"
  selection :: "string list"
  attrs :: "string \<rightharpoonup> int"
  warnings :: "string list"
  messages :: "string list"

subsection \<open>Host commands\<close>

text \<open>
  A command that the host rejects raises a Python exception, which ends the running
  operation: such a command returns \<open>None\<close>. A command given the name of a node fails
  when the scene has no such node.
\<close>

definition objExists :: "scene \<Rightarrow> string \<Rightarrow> bool" where
  "objExists sc n = (nodes sc n \<noteq> None)"

text \<open>\<^verbatim>\<open>cmds.ls(sl=True, type="transform")\<close>: the selected transform nodes, in order.\<close>

definition ls_sl_transform :: "scene \<Rightarrow> string list" where
  "ls_sl_transform sc = filter (objExists sc) (selection sc)"

text \<open>
  \<^verbatim>\<open>cmds.group(em=True, name=n)\<close>: a new empty transform at the world root, left
  selected. The scripts call it only for a name that is not in use.
\<close>

definition cmds_group_em :: "string \<Rightarrow> scene \<Rightarrow> string \<times> scene" where
  "cmds_group_em n sc =
     (n, sc\<lparr>nodes := (nodes sc)(n \<mapsto> \<lparr>is_joint = False, node_parent = None,
                                         world = identity_matrix\<rparr>),
            selection := [n]\<rparr>)"

text \<open>\<^verbatim>\<open>cmds.spaceLocator(name=n)[0]\<close>: a new locator at the world origin, left selected.\<close>

definition cmds_spaceLocator :: "string \<Rightarrow> scene \<Rightarrow> string \<times> scene" where
  "cmds_spaceLocator n sc =
     (n, sc\<lparr>nodes := (nodes sc)(n \<mapsto> \<lparr>is_joint = False, node_parent = None,
                                         world = identity_matrix\<rparr>),
            selection := [n]\<rparr>)"

text \<open>
  \<^verbatim>\<open>cmds.joint(name=n, p=pos)\<close>: a new joint at the world position \<open>pos\<close>, left
  selected. With an empty selection the joint is a child of the world; otherwise the host
  makes it a child of the selected node.
\<close>

definition cmds_joint :: "string \<Rightarrow> vec3 \<Rightarrow> scene \<Rightarrow> string \<times> scene" where
  "cmds_joint n pos sc =
     (n, sc\<lparr>nodes := (nodes sc)(n \<mapsto>
              \<lparr>is_joint = True,
               node_parent = (if selection sc = [] then None else Some (last (selection sc))),
               world = identity_matrix\<lparr>translation := pos\<rparr>\<rparr>),
            selection := [n]\<rparr>)"

text \<open>
  \<^verbatim>\<open>cmds.parent(child, p)\<close>: the child keeps its world transform and is left
  selected. The host rejects a missing node and a node parented to itself.
\<close>

definition cmds_parent :: "string \<Rightarrow> string \<Rightarrow> scene \<Rightarrow> scene option" where
  "cmds_parent child p sc =
     (case nodes sc child of
        None \<Rightarrow> None
      | Some nd \<Rightarrow>
          if \<not> objExists sc p \<or> child = p then None
          else Some (sc\<lparr>nodes := (nodes sc)(child \<mapsto> nd\<lparr>node_parent := Some p\<rparr>),
                        selection := [child]\<rparr>))"

text \<open>\<^verbatim>\<open>cmds.listRelatives(n, p=True)\<close>: the list holding the parent, or \<^verbatim>\<open>None\<close>.\<close>

definition listRelatives_p :: "string \<Rightarrow> scene \<Rightarrow> string list option option" where
  "listRelatives_p n sc =
     (case nodes sc n of
        None \<Rightarrow> None
      | Some nd \<Rightarrow> Some (case node_parent nd of None \<Rightarrow> None | Some p \<Rightarrow> Some [p]))"

text \<open>The queries and the setters of \<^verbatim>\<open>cmds.xform\<close> in world space.\<close>

definition xform_q_ws_m :: "string \<Rightarrow> scene \<Rightarrow> matrix option" where
  "xform_q_ws_m n sc = map_option world (nodes sc n)"

definition xform_q_ws_t :: "string \<Rightarrow> scene \<Rightarrow> vec3 option" where
  "xform_q_ws_t n sc = map_option (\<lambda>nd. translation (world nd)) (nodes sc n)"

definition xform_q_ws_ro :: "string \<Rightarrow> scene \<Rightarrow> vec3 option" where
  "xform_q_ws_ro n sc = map_option (\<lambda>nd. rotation (world nd)) (nodes sc n)"

definition xform_ws_m :: "string \<Rightarrow> matrix \<Rightarrow> scene \<Rightarrow> scene option" where
  "xform_ws_m n m sc =
     (case nodes sc n of
        None \<Rightarrow> None
      | Some nd \<Rightarrow> Some (sc\<lparr>nodes := (nodes sc)(n \<mapsto> nd\<lparr>world := m\<rparr>)\<rparr>))"

definition xform_ws_t :: "string \<Rightarrow> vec3 \<Rightarrow> scene \<Rightarrow> scene option" where
  "xform_ws_t n t sc =
     (case nodes sc n of
        None \<Rightarrow> None
      | Some nd \<Rightarrow>
          Some (sc\<lparr>nodes := (nodes sc)(n \<mapsto> nd\<lparr>world := (world nd)\<lparr>translation := t\<rparr>\<rparr>)\<rparr>))"

definition xform_ws_ro :: "string \<Rightarrow> vec3 \<Rightarrow> scene \<Rightarrow> scene option" where
  "xform_ws_ro n r sc =
     (case nodes sc n of
        None \<Rightarrow> None
      | Some nd \<Rightarrow>
          Some (sc\<lparr>nodes := (nodes sc)(n \<mapsto> nd\<lparr>world := (world nd)\<lparr>rotation := r\<rparr>\<rparr>)\<rparr>))"

text \<open>\<^verbatim>\<open>cmds.setAttr(plug, v)\<close> on a node that exists.\<close>

definition cmds_setAttr :: "string \<Rightarrow> string \<Rightarrow> int \<Rightarrow> scene \<Rightarrow> scene option" where
  "cmds_setAttr n attr v sc =
     (if objExists sc n then Some (sc\<lparr>attrs := (attrs sc)(n @ ''.'' @ attr \<mapsto> v)\<rparr>) else None)"

definition cmds_select_cl :: "scene \<Rightarrow> scene" where
  "cmds_select_cl sc = sc\<lparr>selection := []\<rparr>"

definition cmds_select_r :: "string list \<Rightarrow> scene \<Rightarrow> scene option" where
  "cmds_select_r ns sc =
     (if list_all (objExists sc) ns then Some (sc\<lparr>selection := ns\<rparr>) else None)"

definition cmds_warning :: "string \<Rightarrow> scene \<Rightarrow> scene" where
  "cmds_warning msg sc = sc\<lparr>warnings := warnings sc @ [msg]\<rparr>"

definition cmds_inViewMessage :: "string \<Rightarrow> scene \<Rightarrow> scene" where
  "cmds_inViewMessage msg sc = sc\<lparr>messages := messages sc @ [msg]\<rparr>"

section \<open>The wizard (AuttoRigger.py)\<close>

subsection \<open>Helpers\<close>

definition ensure_group :: "string \<Rightarrow> scene \<Rightarrow> string \<times> scene" where
  "ensure_group n sc = (if \<not> objExists sc n then cmds_group_em n sc else (n, sc))"

text \<open>
  \<^verbatim>\<open>snap_to_selection\<close>: returns \<^verbatim>\<open>False\<close> when no transform is selected,
  otherwise copies the world matrix of the first selected transform onto the node.
\<close>

definition snap_to_selection :: "string \<Rightarrow> scene \<Rightarrow> (bool \<times> scene) option" where
  "snap_to_selection nd sc =
     (let sel = ls_sl_transform sc
      in if sel = [] then Some (False, sc)
         else do {
           m \<leftarrow> xform_q_ws_m (sel ! 0) sc;
           sc \<leftarrow> xform_ws_m nd m sc;
           Some (True, sc)
         })"

text \<open>
  \<^verbatim>\<open>mirror_x_world\<close>: reads the world translation and rotation of \<open>src\<close>, negates
  the first component of the translation, and writes both onto \<open>dst\<close>.
\<close>

definition mirror_x_world :: "string \<Rightarrow> string \<Rightarrow> scene \<Rightarrow> scene option" where
  "mirror_x_world src dst sc =
     do {
       t \<leftarrow> xform_q_ws_t src sc;
       r \<leftarrow> xform_q_ws_ro src sc;
       let t_m = (case t of (t0, t1, t2) \<Rightarrow> (fneg t0, t1, t2));
       sc \<leftarrow> xform_ws_t dst t_m sc;
       xform_ws_ro dst r sc
     }"

subsection \<open>The dialog state\<close>

text \<open>
  The fields of \<^verbatim>\<open>AutoRigWizard\<close> that the operations below read and write; the
  widgets are left out. \<^verbatim>\<open>rebuild_spec\<close> reads the four spin boxes, whose values are
  its arguments here.
\<close>

record wizard =
  self_guides_grp :: string
  self_joints_grp :: string
  self_spine_count :: int
  self_neck_count :: int
  self_finger_count :: int
  self_finger_segments :: int
  self_spec :: "entry list"
  self_steps :: "entry list"
  self_step_index :: int

definition rebuild_spec :: "int \<Rightarrow> int \<Rightarrow> int \<Rightarrow> int \<Rightarrow> wizard \<Rightarrow> wizard" where
  "rebuild_spec spine_spin neck_spin finger_spin finger_seg_spin self =
     (let self = self\<lparr>self_spine_count := spine_spin\<rparr>;
          self = self\<lparr>self_neck_count := neck_spin\<rparr>;
          self = self\<lparr>self_finger_count := finger_spin\<rparr>;
          self = self\<lparr>self_finger_segments := finger_seg_spin\<rparr>;
          spec = build_base_spec (self_spine_count self) (self_neck_count self);
          spec = (if self_finger_count self > 0
                  then append_fingers spec (self_finger_count self) (self_finger_segments self)
                  else spec);
          self = self\<lparr>self_spec := spec\<rparr>;
          self = self\<lparr>self_steps := filter (\<lambda>s. side s \<in> set [''C'', ''L'']) (self_spec self)\<rparr>;
          self = self\<lparr>self_step_index := 0\<rparr>
      in self)"

text \<open>\<^verbatim>\<open>__init__\<close>: the defaults, then \<^verbatim>\<open>rebuild_spec\<close> on the default spin values.\<close>

definition AutoRigWizard_init :: wizard where
  "AutoRigWizard_init =
     rebuild_spec 3 3 5 3
       \<lparr>self_guides_grp = ''RigGuides_GRP'', self_joints_grp = ''RigJoints_GRP'',
        self_spine_count = 3, self_neck_count = 3, self_finger_count = 5,
        self_finger_segments = 3, self_spec = [], self_steps = [], self_step_index = 0\<rparr>"

subsection \<open>\<^verbatim>\<open>mirror_left_to_right_guides\<close>\<close>

definition arrow :: string where
  "arrow = [CHR 0xE2, CHR 0x86, CHR 0x92]"

definition mirror_step :: "wizard \<Rightarrow> entry \<Rightarrow> scene \<Rightarrow> scene option" where
  "mirror_step self s sc =
     (let jL = name s;
          gL = guide_name_for_joint jL
      in if \<not> objExists sc gL then Some sc
         else
           let jR = swap_LR jL;
               gR = guide_name_for_joint jR
           in do {
             (gR, sc) \<leftarrow>
               (if \<not> objExists sc gR
                then do {
                  let (gR, sc) = cmds_spaceLocator gR sc;
                  sc \<leftarrow> cmds_parent gR (self_guides_grp self) sc;
                  sc \<leftarrow> cmds_setAttr gR ''localScaleX'' 2 sc;
                  sc \<leftarrow> cmds_setAttr gR ''localScaleY'' 2 sc;
                  sc \<leftarrow> cmds_setAttr gR ''localScaleZ'' 2 sc;
                  Some (gR, sc)
                }
                else Some (gR, sc));
             mirror_x_world gL gR sc
           })"

fun mirror_loop :: "wizard \<Rightarrow> entry list \<Rightarrow> scene \<Rightarrow> scene option" where
  "mirror_loop self [] sc = Some sc"
| "mirror_loop self (s # left) sc =
     (case mirror_step self s sc of None \<Rightarrow> None | Some sc \<Rightarrow> mirror_loop self left sc)"

definition mirror_left_to_right_guides :: "wizard \<Rightarrow> scene \<Rightarrow> scene option" where
  "mirror_left_to_right_guides self sc =
     (let (g, sc) = ensure_group (self_guides_grp self) sc;
          left = filter (\<lambda>s. side s = ''L'') (self_spec self)
      in do {
        sc \<leftarrow> mirror_loop self left sc;
        let sc = cmds_select_cl sc;
        Some (cmds_inViewMessage (''Mirrored L '' @ arrow @ '' R guides across world X.'') sc)
      })"

subsection \<open>\<^verbatim>\<open>build_fk_joints\<close>\<close>

text \<open>
  The first loop walks the spec; its state is the list \<^verbatim>\<open>created\<close> and the scene.
  A step whose guide is missing is skipped, with a warning when the step is required; a
  step whose joint already exists is skipped with a warning; otherwise the joint is
  created at the guide and parented when \<^verbatim>\<open>parent\<close> is a non-empty name of an
  existing node. The second loop puts every created joint that has no parent under the
  joints group.
\<close>

definition build_step :: "entry \<Rightarrow> string list \<times> scene \<Rightarrow> (string list \<times> scene) option" where
  "build_step s st =
     (case st of (created, sc) \<Rightarrow>
        let j = name s;
            g = guide_name_for_joint j
        in if \<not> objExists sc g
           then Some (created,
                  if required s
                  then cmds_warning (''Missing guide for required joint: '' @ j) sc
                  else sc)
           else if objExists sc j
           then Some (created, cmds_warning (''Joint already exists, skipping: '' @ j) sc)
           else do {
             pos \<leftarrow> xform_q_ws_t g sc;
             let sc = cmds_select_cl sc;
             let (jnt, sc) = cmds_joint j pos sc;
             let created = created @ [jnt];
             (case parent s of
                Some p \<Rightarrow>
                  if p \<noteq> [] \<and> objExists sc p
                  then do { sc \<leftarrow> cmds_parent jnt p sc; Some (created, sc) }
                  else Some (created, sc)
              | None \<Rightarrow> Some (created, sc))
           })"

fun build_loop :: "entry list \<Rightarrow> string list \<times> scene \<Rightarrow> (string list \<times> scene) option" where
  "build_loop [] st = Some st"
| "build_loop (s # rest) st =
     (case build_step s st of None \<Rightarrow> None | Some st \<Rightarrow> build_loop rest st)"

fun group_loop :: "wizard \<Rightarrow> string list \<Rightarrow> scene \<Rightarrow> scene option" where
  "group_loop self [] sc = Some sc"
| "group_loop self (j # js) sc =
     (case listRelatives_p j sc of
        None \<Rightarrow> None
      | Some None \<Rightarrow>
          (case cmds_parent j (self_joints_grp self) sc of
             None \<Rightarrow> None
           | Some sc \<Rightarrow> group_loop self js sc)
      | Some (Some ps) \<Rightarrow> group_loop self js sc)"

definition build_fk_joints :: "wizard \<Rightarrow> scene \<Rightarrow> scene option" where
  "build_fk_joints self sc =
     (let (g, sc) = ensure_group (self_joints_grp self) sc;
          created = []
      in do {
        (created, sc) \<leftarrow> build_loop (self_spec self) (created, sc);
        sc \<leftarrow> group_loop self created sc;
        sc \<leftarrow> (if created \<noteq> [] then cmds_select_r created sc else Some (cmds_select_cl sc));
        Some (cmds_inViewMessage
                (''Built '' @ py_str (int (length created)) @ '' FK joints from guides.'') sc)
      })"

section \<open>The constraint chaining script (broken_FK.py)\<close>

text \<open>
  The script reads the selection and, for every pair of neighbours, constrains the parent
  group of the second control to the first control. The part of the scene it touches:
  \<^item> the selection, as \<^verbatim>\<open>cmds.ls(sl=True)\<close> returns it;
  \<^item> the parent of each node;
  \<^item> the constraint nodes, in the order of their creation: the host returns a handle
    for each new constraint, here its position in this list;
  \<^item> the custom attributes, by plug (node and attribute name);
  \<^item> the connections, from the destination plug to its source plug.
\<close>

datatype handle = Node string | Constraint nat

type_synonym plug = "handle \<times> string"

datatype constraint_kind = ParentConstraint | ScaleConstraint

record constraint =
  kind :: constraint_kind
  target :: string
  driven :: string
  maintain_offset :: bool
  skip_translate :: "string list"
  skip_rotate :: "string list"
  weight :: int

record attribute =
  attribute_type :: string
  min_value :: int
  max_value :: int
  default_value :: int
  keyable :: bool

record fk_scene =
  fk_selection :: "string list"
  fk_parent :: "string \<rightharpoonup> string"
  fk_constraints :: "constraint list"
  fk_attrs :: "plug \<rightharpoonup> attribute"
  fk_connections :: "plug \<rightharpoonup> plug"

text \<open>
  The exceptions the script can end with. A host command that raises leaves the scene
  as it was; what the script did before stays in the scene.
\<close>

datatype fk_error = TypeError | IndexError | RuntimeError

text \<open>
  \<^verbatim>\<open>cmds.listRelatives(n, parent=True)\<close> is \<^verbatim>\<open>None\<close> for a node without a parent,
  and the list holding the parent otherwise.
\<close>

definition fk_listRelatives_parent :: "string \<Rightarrow> fk_scene \<Rightarrow> string list option" where
  "fk_listRelatives_parent n sc = (case fk_parent sc n of None \<Rightarrow> None | Some p \<Rightarrow> Some [p])"

text \<open>
  \<^verbatim>\<open>cmds.parentConstraint(t, d, mo=True, skipTranslate=st, skipRotate=sr, weight=1)[0]\<close>
  and \<^verbatim>\<open>cmds.scaleConstraint(t, d, mo=True, weight=1)[0]\<close>: each call makes a new
  constraint node and returns its handle.
\<close>

definition cmds_parentConstraint ::
  "string \<Rightarrow> string \<Rightarrow> string list \<Rightarrow> string list \<Rightarrow> fk_scene \<Rightarrow> handle \<times> fk_scene" where
  "cmds_parentConstraint t d st sr sc =
     (Constraint (length (fk_constraints sc)),
      sc\<lparr>fk_constraints := fk_constraints sc @
           [\<lparr>kind = ParentConstraint, target = t, driven = d, maintain_offset = True,
             skip_translate = st, skip_rotate = sr, weight = 1\<rparr>]\<rparr>)"

definition cmds_scaleConstraint :: "string \<Rightarrow> string \<Rightarrow> fk_scene \<Rightarrow> handle \<times> fk_scene" where
  "cmds_scaleConstraint t d sc =
     (Constraint (length (fk_constraints sc)),
      sc\<lparr>fk_constraints := fk_constraints sc @
           [\<lparr>kind = ScaleConstraint, target = t, driven = d, maintain_offset = True,
             skip_translate = [], skip_rotate = [], weight = 1\<rparr>]\<rparr>)"

text \<open>
  \<^verbatim>\<open>cmds.addAttr(n, ln=a, at="double", min=lo, max=hi, dv=d)\<close>: the host rejects an
  attribute name that the node already has.
\<close>

definition cmds_addAttr ::
  "string \<Rightarrow> string \<Rightarrow> int \<Rightarrow> int \<Rightarrow> int \<Rightarrow> fk_scene \<Rightarrow> fk_error + fk_scene" where
  "cmds_addAttr n a lo hi d sc =
     (if fk_attrs sc (Node n, a) = None
      then Inr (sc\<lparr>fk_attrs := (fk_attrs sc)((Node n, a) \<mapsto>
                   \<lparr>attribute_type = ''double'', min_value = lo, max_value = hi,
                    default_value = d, keyable = False\<rparr>)\<rparr>)
      else Inl RuntimeError)"

text \<open>\<^verbatim>\<open>cmds.setAttr(plug, e=True, keyable=True)\<close>: the attribute has to exist.\<close>

definition cmds_setAttr_keyable :: "plug \<Rightarrow> fk_scene \<Rightarrow> fk_error + fk_scene" where
  "cmds_setAttr_keyable p sc =
     (case fk_attrs sc p of
        None \<Rightarrow> Inl RuntimeError
      | Some a \<Rightarrow> Inr (sc\<lparr>fk_attrs := (fk_attrs sc)(p \<mapsto> a\<lparr>keyable := True\<rparr>)\<rparr>))"

text \<open>
  \<^verbatim>\<open>cmds.connectAttr(src, dst, f=True)\<close>: the source is an attribute that exists and
  the destination is the weight of a constraint that exists. With \<^verbatim>\<open>f=True\<close> another
  connection into the destination is replaced. What the host does when the very
  connection asked for is there already is not said anywhere in the repository: the
  parameter \<open>reconnect_raises\<close> of the model decides whether the command raises
  then or leaves the scene as it is.
\<close>

definition cmds_connectAttr :: "bool \<Rightarrow> plug \<Rightarrow> plug \<Rightarrow> fk_scene \<Rightarrow> fk_error + fk_scene" where
  "cmds_connectAttr reconnect_raises src dst sc =
     (if fk_attrs sc src = None then Inl RuntimeError
      else case dst of
             (Constraint i, a) \<Rightarrow>
               if i < length (fk_constraints sc) \<and> a = ''w0''
               then if fk_connections sc dst = Some src
                    then if reconnect_raises then Inl RuntimeError else Inr sc
                    else Inr (sc\<lparr>fk_connections := (fk_connections sc)(dst \<mapsto> src)\<rparr>)
               else Inl RuntimeError
           | (Node n, a) \<Rightarrow> Inl RuntimeError)"

subsection \<open>The loop\<close>

text \<open>
  Statements that only change the scene, run in order: the first one that raises ends
  the run, and the result is the exception, if any, with the scene reached.
\<close>

fun run_cmds ::
  "(fk_scene \<Rightarrow> fk_error + fk_scene) list \<Rightarrow> fk_scene \<Rightarrow> fk_error option \<times> fk_scene" where
  "run_cmds [] sc = (None, sc)"
| "run_cmds (cmd # rest) sc =
     (case cmd sc of
        Inl e \<Rightarrow> (Some e, sc)
      | Inr sc' \<Rightarrow> run_cmds rest sc')"

text \<open>
  The body of the loop for the pair \<^verbatim>\<open>sels[index]\<close>, \<^verbatim>\<open>sels[index + 1]\<close>. The script
  indexes the result of \<^verbatim>\<open>listRelatives\<close> at once: \<^verbatim>\<open>None[0]\<close> raises \<^verbatim>\<open>TypeError\<close>.
  The handle \<open>s_constraint\<close> is bound and not used afterwards, and the last two
  statements are the same, as in the script.
\<close>

definition fk_step :: "bool \<Rightarrow> string \<Rightarrow> string \<Rightarrow> fk_scene \<Rightarrow> fk_error option \<times> fk_scene" where
  "fk_step reconnect_raises parent_ctrl child_ctrl sc =
     (case fk_listRelatives_parent child_ctrl sc of
        None \<Rightarrow> (Some TypeError, sc)
      | Some [] \<Rightarrow> (Some IndexError, sc)
      | Some (child_ctrl_grp # _) \<Rightarrow>
          let (p_constraint1, sc) =
                cmds_parentConstraint parent_ctrl child_ctrl_grp [] [''x'', ''y'', ''z''] sc;
              (p_constraint2, sc) =
                cmds_parentConstraint parent_ctrl child_ctrl_grp [''x'', ''y'', ''z''] [] sc;
              (s_constraint, sc) = cmds_scaleConstraint parent_ctrl child_ctrl_grp sc
          in run_cmds
               [cmds_addAttr child_ctrl ''Follow_Translate'' 0 1 1,
                cmds_setAttr_keyable (Node child_ctrl, ''Follow_Translate''),
                cmds_addAttr child_ctrl ''Follow_Rotate'' 0 1 1,
                cmds_setAttr_keyable (Node child_ctrl, ''Follow_Rotate''),
                cmds_connectAttr reconnect_raises
                  (Node child_ctrl, ''Follow_Translate'') (p_constraint1, ''w0''),
                cmds_connectAttr reconnect_raises
                  (Node child_ctrl, ''Follow_Rotate'') (p_constraint2, ''w0''),
                cmds_connectAttr reconnect_raises
                  (Node child_ctrl, ''Follow_Rotate'') (p_constraint2, ''w0'')]
               sc)"

fun fk_loop :: "bool \<Rightarrow> string list \<Rightarrow> nat list \<Rightarrow> fk_scene \<Rightarrow> fk_error option \<times> fk_scene" where
  "fk_loop reconnect_raises sels [] sc = (None, sc)"
| "fk_loop reconnect_raises sels (index # rest) sc =
     (case fk_step reconnect_raises (sels ! index) (sels ! (index + 1)) sc of
        (Some e, sc') \<Rightarrow> (Some e, sc')
      | (None, sc') \<Rightarrow> fk_loop reconnect_raises sels rest sc')"

text \<open>
  The script: \<^verbatim>\<open>range(0, len(sels) - 1, 1)\<close> is empty for an empty selection, as the
  truncated subtraction gives; every index and its successor are within the list.
\<close>

definition broken_FK :: "bool \<Rightarrow> fk_scene \<Rightarrow> fk_error option \<times> fk_scene" where
  "broken_FK reconnect_raises sc =
     (let sels = fk_selection sc in fk_loop reconnect_raises sels [0..<length sels - 1] sc)"

section \<open>The control mirroring script (MirrorControls.py)\<close>

text \<open>
  \<^verbatim>\<open>s.replace(old, new, 1)\<close>: the first occurrence only.
\<close>

fun replace_first :: "string \<Rightarrow> string \<Rightarrow> string \<Rightarrow> string" where
  "replace_first old new [] = (if old = [] then new else [])"
| "replace_first old new (c # cs) =
     (if take (length old) (c # cs) = old then new @ drop (length old) (c # cs)
      else c # replace_first old new cs)"

text \<open>\<^verbatim>\<open>xs[0]\<close> raises \<^verbatim>\<open>IndexError\<close> on an empty list.\<close>

definition index0 :: "'a list \<Rightarrow> 'a option" where
  "index0 xs = (case xs of [] \<Rightarrow> None | x # _ \<Rightarrow> Some x)"

text \<open>\<^verbatim>\<open>s.split("|")[-1]\<close>: what follows the last bar, the leaf name of a DAG path.\<close>

definition split_bar_last :: "string \<Rightarrow> string" where
  "split_bar_last s = rev (takeWhile (\<lambda>c. c \<noteq> CHR ''|'') (rev s))"

text \<open>
  The script duplicates a group together with its children, so that two nodes carry
  the same leaf name and are told apart by their DAG paths, and it scales, matches and
  freezes transforms. What these host commands do to the scene is outside the
  repository; they are parameters of the model, each a function on the scene that may
  fail. The selection query, \<^verbatim>\<open>objExists\<close>, \<^verbatim>\<open>listRelatives(parent=True)\<close>, the
  creation of the empty group and the warning are the commands of the scene model above.
\<close>

record host =
  cmds_duplicate :: "string \<Rightarrow> scene \<Rightarrow> (string list \<times> scene) option"
  cmds_rename :: "string \<Rightarrow> string \<Rightarrow> scene \<Rightarrow> (string \<times> scene) option"
  cmds_listRelatives_children :: "string \<Rightarrow> scene \<Rightarrow> string list option option"
  cmds_parent_world :: "string \<Rightarrow> scene \<Rightarrow> (string list \<times> scene) option"
  cmds_parent_path :: "string \<Rightarrow> string \<Rightarrow> scene \<Rightarrow> scene option"
  cmds_matchTransform :: "string \<Rightarrow> string \<Rightarrow> scene \<Rightarrow> scene option"
  cmds_scale :: "int \<Rightarrow> int \<Rightarrow> int \<Rightarrow> string \<Rightarrow> scene \<Rightarrow> scene option"
  cmds_delete :: "string \<Rightarrow> scene \<Rightarrow> scene option"
  cmds_setAttr_path :: "string \<Rightarrow> int \<Rightarrow> scene \<Rightarrow> scene option"
  cmds_makeIdentity :: "string \<Rightarrow> scene \<Rightarrow> scene option"

subsection \<open>\<^verbatim>\<open>reparent_controls_to_groups\<close>\<close>

fun reparent_controls_to_groups :: "host \<Rightarrow> string list \<Rightarrow> scene \<Rightarrow> scene option" where
  "reparent_controls_to_groups h [] sc = Some sc"
| "reparent_controls_to_groups h (ctrl # controls) sc =
     (let ctrl_leaf = split_bar_last ctrl
      in if \<not> endswith ctrl_leaf ''_Ctrl'' then reparent_controls_to_groups h controls sc
         else
           let grp_name = py_replace ''_Ctrl'' ''_Ctrl_Grp'' ctrl_leaf
           in if objExists sc grp_name
              then (case cmds_parent_path h ctrl grp_name sc of
                      None \<Rightarrow> None
                    | Some sc \<Rightarrow> reparent_controls_to_groups h controls sc)
              else reparent_controls_to_groups h controls
                     (cmds_warning (''Missing control group: '' @ grp_name) sc))"

subsection \<open>\<^verbatim>\<open>MirrorControls\<close>\<close>

text \<open>The inner search: the first child whose leaf name ends in \<^verbatim>\<open>_Ctrl\<close>.\<close>

fun find_dupe_ctrl :: "string list \<Rightarrow> string option" where
  "find_dupe_ctrl [] = None"
| "find_dupe_ctrl (k # kids) =
     (if endswith (split_bar_last k) ''_Ctrl'' then Some k else find_dupe_ctrl kids)"

text \<open>
  The body of the main loop for one selected control; the state is the list
  \<^verbatim>\<open>unparented_ctrls\<close> and the scene.
\<close>

definition mirror_control :: "host \<Rightarrow> string \<Rightarrow> string list \<times> scene \<Rightarrow> (string list \<times> scene) option" where
  "mirror_control h ctrl st =
     (case st of (unparented_ctrls, sc) \<Rightarrow>
        do {
          parents \<leftarrow> listRelatives_p ctrl sc;
          (case parents of
             None \<Rightarrow> Some (unparented_ctrls, sc)
           | Some [] \<Rightarrow> Some (unparented_ctrls, sc)
           | Some (parent0 # _) \<Rightarrow>
               do {
                 (dupes, sc) \<leftarrow> cmds_duplicate h parent0 sc;
                 dupe_grp \<leftarrow> index0 dupes;
                 let new_grp_name = replace_first ''L_'' ''R_'' dupe_grp;
                 (dupe_grp, sc) \<leftarrow> cmds_rename h dupe_grp new_grp_name sc;
                 let grp_name_end = replace_first ''Grp1'' ''Grp'' dupe_grp;
                 (dupe_grp, sc) \<leftarrow> cmds_rename h dupe_grp grp_name_end sc;
                 kids \<leftarrow> cmds_listRelatives_children h dupe_grp sc;
                 let kids = (case kids of None \<Rightarrow> [] | Some ks \<Rightarrow> ks);
                 let dupe_ctrl = find_dupe_ctrl kids;
                 (case dupe_ctrl of
                    None \<Rightarrow> Some (unparented_ctrls, sc)
                  | Some dupe_ctrl \<Rightarrow>
                      if dupe_ctrl = [] then Some (unparented_ctrls, sc)
                      else
                        let leaf = split_bar_last dupe_ctrl
                        in do {
                          (dupe_ctrl, unparented_ctrls, sc) \<leftarrow>
                            (if startswith leaf ''L_''
                             then do {
                               let new_leaf = replace_first ''L_'' ''R_'' leaf;
                               (dupe_ctrl, sc) \<leftarrow> cmds_rename h dupe_ctrl new_leaf sc;
                               (moved, sc) \<leftarrow> cmds_parent_world h dupe_ctrl sc;
                               dupe_ctrl \<leftarrow> index0 moved;
                               let unparented_ctrls = unparented_ctrls @ [dupe_ctrl];
                               let grp_leaf = split_bar_last dupe_grp;
                               let jnt_name = py_replace ''_Ctrl_Grp'' ''_Jnt'' grp_leaf;
                               sc \<leftarrow>
                                 (if objExists sc jnt_name
                                  then cmds_matchTransform h dupe_grp jnt_name sc
                                  else Some (cmds_warning
                                               (''No matching joint for '' @ grp_leaf) sc));
                               Some (dupe_ctrl, unparented_ctrls, sc)
                             }
                             else Some (dupe_ctrl, unparented_ctrls, sc));
                          sc \<leftarrow> cmds_parent_path h dupe_ctrl ''mirror_group'' sc;
                          Some (unparented_ctrls, sc)
                        })
               })
        })"

fun mirror_controls_loop :: "host \<Rightarrow> string list \<Rightarrow> string list \<times> scene \<Rightarrow> (string list \<times> scene) option" where
  "mirror_controls_loop h [] st = Some st"
| "mirror_controls_loop h (ctrl # ctrls) st =
     (case mirror_control h ctrl st of
        None \<Rightarrow> None
      | Some st \<Rightarrow> mirror_controls_loop h ctrls st)"

text \<open>The last loop: zero the translation of every mirrored control and freeze it.\<close>

fun freeze_loop :: "host \<Rightarrow> string list \<Rightarrow> scene \<Rightarrow> scene option" where
  "freeze_loop h [] sc = Some sc"
| "freeze_loop h (ctrl # ctrls) sc =
     do {
       sc \<leftarrow> cmds_setAttr_path h (ctrl @ ''.translateX'') 0 sc;
       sc \<leftarrow> cmds_setAttr_path h (ctrl @ ''.translateY'') 0 sc;
       sc \<leftarrow> cmds_setAttr_path h (ctrl @ ''.translateZ'') 0 sc;
       sc \<leftarrow> cmds_makeIdentity h ctrl sc;
       freeze_loop h ctrls sc
     }"

definition MirrorControls :: "host \<Rightarrow> scene \<Rightarrow> scene option" where
  "MirrorControls h sc =
     (let ctrls = ls_sl_transform sc
      in if ctrls = [] then Some (cmds_warning ''please select at least one control'' sc)
         else
           let mirror_grp = ''mirror_group'';
               (mirror_grp, sc) =
                 (if \<not> objExists sc mirror_grp then cmds_group_em ''mirror_group'' sc
                  else (mirror_grp, sc));
               unparented_ctrls = []
           in do {
             (unparented_ctrls, sc) \<leftarrow> mirror_controls_loop h ctrls (unparented_ctrls, sc);
             sc \<leftarrow> cmds_scale h (- 1) 1 1 mirror_grp sc;
             sc \<leftarrow> reparent_controls_to_groups h unparented_ctrls sc;
             sc \<leftarrow> cmds_delete h mirror_grp sc;
             freeze_loop h unparented_ctrls sc
           })"

section \<open>Vocabulary of the properties\<close>

text \<open>
  The definitions of this section are not taken from the scripts; they state the
  properties proved below and name the pieces of the generated spec.
\<close>

text \<open>
  \<open>parents_earlier seen spec\<close>: walking the spec in order, the parent of every step is
  \<^verbatim>\<open>None\<close> or is in \<open>seen\<close> or is the name of a step met before.
\<close>

fun parents_earlier :: "string list \<Rightarrow> entry list \<Rightarrow> bool" where
  "parents_earlier seen [] = True"
| "parents_earlier seen (e # es) =
     ((case parent e of None \<Rightarrow> True | Some p \<Rightarrow> p \<in> set seen)
      \<and> parents_earlier (name e # seen) es)"

text \<open>
  The steps a chain loop appends for the indices \<open>ns\<close>, started with \<open>prev\<close>: the
  closed form of the three loops of the spec builders.
\<close>

fun chain :: "(int \<Rightarrow> string) \<Rightarrow> (int \<Rightarrow> string) \<Rightarrow> string \<Rightarrow> string \<Rightarrow> int list \<Rightarrow> entry list" where
  "chain kf nf sd prev [] = []"
| "chain kf nf sd prev (i # ns) =
     \<lparr>key = kf i, name = nf i, parent = Some prev, side = sd, required = True\<rparr>
       # chain kf nf sd (nf i) ns"

definition spine_name :: "int \<Rightarrow> string" where
  "spine_name i = ''Spine_'' @ fmt_02d i @ ''_FK_Jnt''"

definition neck_name :: "int \<Rightarrow> string" where
  "neck_name i = ''Neck_'' @ fmt_02d i @ ''_FK_Jnt''"

definition finger_name :: "int \<Rightarrow> int \<Rightarrow> string" where
  "finger_name f s = ''L_Finger_'' @ fmt_02d f @ ''_'' @ fmt_02d s @ ''_FK_Jnt''"

definition limbs :: "entry list" where
  "limbs =
            [\<lparr>key = ''L_CLAV'', name = ''L_Clav_FK_Jnt'', parent = Some ''Chest_FK_Jnt'',
               side = ''L'', required = True\<rparr>,
             \<lparr>key = ''L_ARM1'', name = ''L_Arm_01_FK_Jnt'', parent = Some ''L_Clav_FK_Jnt'',
               side = ''L'', required = True\<rparr>,
             \<lparr>key = ''L_ARM2'', name = ''L_Arm_02_FK_Jnt'', parent = Some ''L_Arm_01_FK_Jnt'',
               side = ''L'', required = True\<rparr>,
             \<lparr>key = ''L_ARM3'', name = ''L_Arm_03_FK_Jnt'', parent = Some ''L_Arm_02_FK_Jnt'',
               side = ''L'', required = True\<rparr>,
             \<lparr>key = ''L_HAND'', name = ''L_Hand_FK_Jnt'', parent = Some ''L_Arm_03_FK_Jnt'',
               side = ''L'', required = True\<rparr>,
             \<lparr>key = ''L_LEGCLAV'', name = ''L_Leg_Clav_FK_Jnt'', parent = Some ''Pelvis_FK_Jnt'',
               side = ''L'', required = True\<rparr>,
             \<lparr>key = ''L_LEG1'', name = ''L_Leg_01_FK_Jnt'', parent = Some ''L_Leg_Clav_FK_Jnt'',
               side = ''L'', required = True\<rparr>,
             \<lparr>key = ''L_LEG2'', name = ''L_Leg_02_FK_Jnt'', parent = Some ''L_Leg_01_FK_Jnt'',
               side = ''L'', required = True\<rparr>,
             \<lparr>key = ''L_LEG3'', name = ''L_Leg_03_FK_Jnt'', parent = Some ''L_Leg_02_FK_Jnt'',
               side = ''L'', required = True\<rparr>,
             \<lparr>key = ''L_FOOT1'', name = ''L_Foot_01_FK_Jnt'', parent = Some ''L_Leg_03_FK_Jnt'',
               side = ''L'', required = True\<rparr>,
             \<lparr>key = ''L_FOOT2'', name = ''L_Foot_02_FK_Jnt'', parent = Some ''L_Foot_01_FK_Jnt'',
               side = ''L'', required = True\<rparr>,
             \<lparr>key = ''L_FOOT3'', name = ''L_Foot_03_FK_Jnt'', parent = Some ''L_Foot_02_FK_Jnt'',
               side = ''L'', required = False\<rparr>]"

definition finger_entries :: "int list \<Rightarrow> int \<Rightarrow> entry list" where
  "finger_entries fs f =
     chain (\<lambda>s. ''L_F'' @ py_str f @ ''_'' @ py_str s) (finger_name f) ''L'' ''L_Hand_FK_Jnt'' fs"

definition fixed_names :: "string list" where
  "fixed_names = [''Head_FK_Jnt'', ''L_Clav_FK_Jnt'', ''L_Arm_01_FK_Jnt'', ''L_Arm_02_FK_Jnt'',
     ''L_Arm_03_FK_Jnt'', ''L_Hand_FK_Jnt'', ''L_Leg_Clav_FK_Jnt'', ''L_Leg_01_FK_Jnt'',
     ''L_Leg_02_FK_Jnt'', ''L_Leg_03_FK_Jnt'', ''L_Foot_01_FK_Jnt'', ''L_Foot_02_FK_Jnt'',
     ''L_Foot_03_FK_Jnt'']"

text \<open>
  The shape of a joint name of the generated spec: it ends in \<^verbatim>\<open>_FK_Jnt\<close> and has
  no \<^verbatim>\<open>J\<close> before that suffix, so \<^verbatim>\<open>_Jnt\<close> occurs in it once, at the end.
\<close>

definition joint_form :: "string \<Rightarrow> bool" where
  "joint_form n =
     (endswith n ''_FK_Jnt'' \<and> CHR ''J'' \<notin> set (take (length n - length ''_FK_Jnt'') n))"

text \<open>
  What \<^verbatim>\<open>build_fk_joints\<close> does with a step, read off the scene it starts from: the
  step is buildable when its guide exists and its joint does not; the warnings the step
  gives rise to; the joint node the first loop leaves for a buildable step; and the
  effect of the second loop on a node, which parents it to the group when it has no
  parent. \<open>no_forward\<close> says that no step names itself or a later step as its parent.
\<close>

definition buildable :: "scene \<Rightarrow> entry \<Rightarrow> bool" where
  "buildable sc e =
     (objExists sc (guide_name_for_joint (name e)) \<and> \<not> objExists sc (name e))"

definition build_warning :: "scene \<Rightarrow> entry \<Rightarrow> string list" where
  "build_warning sc e =
     (if \<not> objExists sc (guide_name_for_joint (name e))
      then (if required e then [''Missing guide for required joint: '' @ name e] else [])
      else if objExists sc (name e) then [''Joint already exists, skipping: '' @ name e]
      else [])"

fun no_forward :: "entry list \<Rightarrow> bool" where
  "no_forward [] = True"
| "no_forward (e # es) =
     ((case parent e of None \<Rightarrow> True | Some p \<Rightarrow> p \<notin> set (map name (e # es)))
      \<and> no_forward es)"

definition joint_node :: "scene \<Rightarrow> scene \<Rightarrow> entry \<Rightarrow> node" where
  "joint_node sc sc' e =
     \<lparr>is_joint = True,
      node_parent =
        (case parent e of
           None \<Rightarrow> None
         | Some p \<Rightarrow> if p \<noteq> [] \<and> objExists sc' p then Some p else None),
      world = identity_matrix
        \<lparr>translation := the (xform_q_ws_t (guide_name_for_joint (name e)) sc)\<rparr>\<rparr>"

definition adopt :: "string \<Rightarrow> node \<Rightarrow> node" where
  "adopt g nd = (if node_parent nd = None then nd\<lparr>node_parent := Some g\<rparr> else nd)"

subsection \<open>Example scenes\<close>

text \<open>
  Small scenes and steps on which the theorems are instantiated: two hand guides, one
  hand guide, a host whose path commands all fail, a scene with the guide of the first
  step, and the same scene with a node that already carries the name of its joint.
\<close>

definition two_guides :: scene where
  "two_guides =
     \<lparr>nodes = [''L_Hand_FK_Guide'' \<mapsto>
                 \<lparr>is_joint = False, node_parent = None,
                  world = identity_matrix\<lparr>translation := (fone, fone, fzero)\<rparr>\<rparr>,
               ''R_Hand_FK_Guide'' \<mapsto>
                 \<lparr>is_joint = False, node_parent = None, world = identity_matrix\<rparr>],
      selection = [], attrs = Map.empty, warnings = [], messages = []\<rparr>"

definition no_host :: host where
  "no_host =
     \<lparr>cmds_duplicate = (\<lambda>n sc. None), cmds_rename = (\<lambda>a b sc. None),
      cmds_listRelatives_children = (\<lambda>n sc. None), cmds_parent_world = (\<lambda>n sc. None),
      cmds_parent_path = (\<lambda>a b sc. None), cmds_matchTransform = (\<lambda>a b sc. None),
      cmds_scale = (\<lambda>x y z n sc. None), cmds_delete = (\<lambda>n sc. None),
      cmds_setAttr_path = (\<lambda>p v sc. None), cmds_makeIdentity = (\<lambda>n sc. None)\<rparr>"

definition one_guide :: scene where
  "one_guide =
     \<lparr>nodes = [''L_Hand_FK_Guide'' \<mapsto>
                 \<lparr>is_joint = False, node_parent = None,
                  world = identity_matrix\<lparr>translation := (fone, fone, fzero)\<rparr>\<rparr>],
      selection = [], attrs = Map.empty, warnings = [], messages = []\<rparr>"

definition cog_guide :: scene where
  "cog_guide =
     \<lparr>nodes = [''COG_FK_Guide'' \<mapsto>
                 \<lparr>is_joint = False, node_parent = None,
                  world = identity_matrix\<lparr>translation := (fzero, fone, fzero)\<rparr>\<rparr>],
      selection = [], attrs = Map.empty, warnings = [], messages = []\<rparr>"

definition cog_built :: scene where
  "cog_built =
     \<lparr>nodes = [''COG_FK_Guide'' \<mapsto>
                 \<lparr>is_joint = False, node_parent = None,
                  world = identity_matrix\<lparr>translation := (fzero, fone, fzero)\<rparr>\<rparr>,
               ''COG_FK_Jnt'' \<mapsto>
                 \<lparr>is_joint = False, node_parent = None, world = identity_matrix\<rparr>],
      selection = [], attrs = Map.empty, warnings = [], messages = []\<rparr>"

definition cog_entry :: entry where
  "cog_entry = \<lparr>key = ''COG'', name = ''COG_FK_Jnt'', parent = None, side = ''C'', required = True\<rparr>"

definition pelvis_entry :: entry where
  "pelvis_entry = \<lparr>key = ''PELV'', name = ''Pelvis_FK_Jnt'', parent = Some ''COG_FK_Jnt'',
                    side = ''C'', required = True\<rparr>"

section \<open>Vocabulary for the constraint chaining script\<close>

text \<open>
  The attribute the script leaves on a child control: a double from 0 to 1 with
  default 1, keyable. The three constraints it makes for a pair, by target and driven
  node.
\<close>

definition follow_attr :: attribute where
  "follow_attr = \<lparr>attribute_type = ''double'', min_value = 0, max_value = 1,
                   default_value = 1, keyable = True\<rparr>"

definition translate_only :: "string \<Rightarrow> string \<Rightarrow> constraint" where
  "translate_only t d =
     \<lparr>kind = ParentConstraint, target = t, driven = d, maintain_offset = True,
      skip_translate = [], skip_rotate = [''x'', ''y'', ''z''], weight = 1\<rparr>"

definition rotate_only :: "string \<Rightarrow> string \<Rightarrow> constraint" where
  "rotate_only t d =
     \<lparr>kind = ParentConstraint, target = t, driven = d, maintain_offset = True,
      skip_translate = [''x'', ''y'', ''z''], skip_rotate = [], weight = 1\<rparr>"

definition scale_constraint :: "string \<Rightarrow> string \<Rightarrow> constraint" where
  "scale_constraint t d =
     \<lparr>kind = ScaleConstraint, target = t, driven = d, maintain_offset = True,
      skip_translate = [], skip_rotate = [], weight = 1\<rparr>"

text \<open>Example scenes: a chain of two and a chain of three controls, each under its group.\<close>

definition two_controls :: fk_scene where
  "two_controls =
     \<lparr>fk_selection = [''A_Ctrl'', ''B_Ctrl''],
      fk_parent = [''A_Ctrl'' \<mapsto> ''A_Ctrl_Grp'', ''B_Ctrl'' \<mapsto> ''B_Ctrl_Grp''],
      fk_constraints = [], fk_attrs = Map.empty, fk_connections = Map.empty\<rparr>"

definition three_controls :: fk_scene where
  "three_controls =
     \<lparr>fk_selection = [''A_Ctrl'', ''B_Ctrl'', ''C_Ctrl''],
      fk_parent = [''A_Ctrl'' \<mapsto> ''A_Ctrl_Grp'', ''B_Ctrl'' \<mapsto> ''B_Ctrl_Grp'',
                   ''C_Ctrl'' \<mapsto> ''C_Ctrl_Grp''],
      fk_constraints = [], fk_attrs = Map.empty, fk_connections = Map.empty\<rparr>"

text \<open>The scene the script leaves after the pair of \<^const>\<open>two_controls\<close>.\<close>

definition two_controls_linked :: fk_scene where
  "two_controls_linked =
     two_controls
       \<lparr>fk_constraints :=
          [translate_only ''A_Ctrl'' ''B_Ctrl_Grp'', rotate_only ''A_Ctrl'' ''B_Ctrl_Grp'',
           scale_constraint ''A_Ctrl'' ''B_Ctrl_Grp''],
        fk_attrs :=
          [(Node ''B_Ctrl'', ''Follow_Translate'') \<mapsto> follow_attr,
           (Node ''B_Ctrl'', ''Follow_Rotate'') \<mapsto> follow_attr],
        fk_connections :=
          [(Constraint 0, ''w0'') \<mapsto> (Node ''B_Ctrl'', ''Follow_Translate''),
           (Constraint 1, ''w0'') \<mapsto> (Node ''B_Ctrl'', ''Follow_Rotate'')]\<rparr>"
section \<open>Properties of the name helpers\<close>

lemma startswith_append [simp]: "startswith (p @ r) p"
  by (simp add: startswith_def)

lemma swap_LR_left: "swap_LR (''L_'' @ r) = ''R_'' @ r"
  by (simp add: swap_LR_def startswith_def)

lemma swap_LR_right: "swap_LR (''R_'' @ r) = ''L_'' @ r"
  by (simp add: swap_LR_def startswith_def)

lemma startswith_split2: "startswith nm [a, b] \<Longrightarrow> nm = a # b # drop 2 nm"
proof -
  assume "startswith nm [a, b]"
  then have "take 2 nm = [a, b]"
    by (simp add: startswith_def numeral_2_eq_2)
  then show ?thesis
    using append_take_drop_id [of 2 nm] by simp
qed

text \<open>
  Claim C5. \<^verbatim>\<open>swap_LR\<close> is an involution on names that carry a side prefix: a name
  that starts with \<^verbatim>\<open>L_\<close> comes back unchanged after two swaps, one swap turns
  \<^verbatim>\<open>L_\<close> followed by a rest into \<^verbatim>\<open>R_\<close> followed by the same rest, and one swap
  turns \<^verbatim>\<open>R_\<close> followed by a rest into \<^verbatim>\<open>L_\<close> followed by the same rest.
\<close>

theorem swap_LR_involution:
  "(startswith nm ''L_'' \<longrightarrow> swap_LR (swap_LR nm) = nm \<and> swap_LR nm = ''R_'' @ drop 2 nm)
   \<and> (startswith nm ''R_'' \<longrightarrow> swap_LR (swap_LR nm) = nm \<and> swap_LR nm = ''L_'' @ drop 2 nm)"
proof (intro conjI impI)
  assume l: "startswith nm ''L_''"
  then have nm: "nm = CHR ''L'' # CHR ''_'' # drop 2 nm"
    by (rule startswith_split2)
  show "swap_LR nm = ''R_'' @ drop 2 nm"
    using l by (simp add: swap_LR_def)
  then show "swap_LR (swap_LR nm) = nm"
    using nm swap_LR_right [of "drop 2 nm"] by simp
next
  assume r: "startswith nm ''R_''"
  then have nm: "nm = CHR ''R'' # CHR ''_'' # drop 2 nm"
    by (rule startswith_split2)
  have nl: "\<not> startswith nm ''L_''"
    using r by (auto simp: startswith_def)
  show "swap_LR nm = ''L_'' @ drop 2 nm"
    using r nl by (simp add: swap_LR_def)
  then show "swap_LR (swap_LR nm) = nm"
    using nm swap_LR_left [of "drop 2 nm"] by simp
qed

theorem swap_LR_involution_witness:
  "startswith ''L_Arm_01_FK_Jnt'' ''L_''
   \<and> swap_LR (swap_LR ''L_Arm_01_FK_Jnt'') = ''L_Arm_01_FK_Jnt''
   \<and> swap_LR ''L_Arm_01_FK_Jnt'' = ''R_Arm_01_FK_Jnt''
   \<and> startswith ''R_Arm_01_FK_Jnt'' ''R_''
   \<and> swap_LR ''R_Arm_01_FK_Jnt'' = ''L_Arm_01_FK_Jnt''"
  using swap_LR_involution [of "''L_Arm_01_FK_Jnt''"]
    swap_LR_involution [of "''R_Arm_01_FK_Jnt''"]
  by (simp add: startswith_def)

section \<open>Worked examples of the spec builders\<close>

lemma range_py_1_3 [simp]: "range_py 1 3 = [1, 2]" "range_py 1 4 = [1, 2, 3]"
  by (simp_all add: range_py_def upto_rec1)

lemma fmt_02d_small [simp]:
  "fmt_02d 1 = ''01''" "fmt_02d 2 = ''02''" "fmt_02d 3 = ''03''"
  by (simp_all add: fmt_02d_def py_str_def dec_nat.simps digit_char_def)

lemma py_str_small [simp]:
  "py_str 1 = ''1''" "py_str 2 = ''2''" "py_str 3 = ''3''"
  by (simp_all add: py_str_def dec_nat.simps digit_char_def)

text \<open>
  Claim C6. With three spine joints and three neck joints the base spec has exactly one
  step named \<^verbatim>\<open>Chest_FK_Jnt\<close>, its parent is \<^verbatim>\<open>Spine_03_FK_Jnt\<close>, and the step named
  \<^verbatim>\<open>Head_FK_Jnt\<close> has the parent \<^verbatim>\<open>Neck_03_FK_Jnt\<close>.
\<close>

theorem build_base_spec_3_3_chest_head:
  "map parent (filter (\<lambda>e. name e = ''Chest_FK_Jnt'') (build_base_spec 3 3))
     = [Some ''Spine_03_FK_Jnt'']
   \<and> map parent (filter (\<lambda>e. name e = ''Head_FK_Jnt'') (build_base_spec 3 3))
     = [Some ''Neck_03_FK_Jnt'']"
  by (simp add: build_base_spec_def Let_def)

text \<open>
  Claim C7. For every spec, \<^verbatim>\<open>append_fingers\<close> with two fingers of two segments
  appends exactly four steps, named \<^verbatim>\<open>L_Finger_01_01_FK_Jnt\<close>,
  \<^verbatim>\<open>L_Finger_01_02_FK_Jnt\<close>, \<^verbatim>\<open>L_Finger_02_01_FK_Jnt\<close> and
  \<^verbatim>\<open>L_Finger_02_02_FK_Jnt\<close> in this order; the first segment of each finger has the
  parent \<^verbatim>\<open>L_Hand_FK_Jnt\<close> and the second segment has the first segment of the same
  finger as its parent.
\<close>

theorem append_fingers_2_2:
  "append_fingers spec 2 2 = spec @
     [\<lparr>key = ''L_F1_1'', name = ''L_Finger_01_01_FK_Jnt'', parent = Some ''L_Hand_FK_Jnt'',
        side = ''L'', required = True\<rparr>,
      \<lparr>key = ''L_F1_2'', name = ''L_Finger_01_02_FK_Jnt'', parent = Some ''L_Finger_01_01_FK_Jnt'',
        side = ''L'', required = True\<rparr>,
      \<lparr>key = ''L_F2_1'', name = ''L_Finger_02_01_FK_Jnt'', parent = Some ''L_Hand_FK_Jnt'',
        side = ''L'', required = True\<rparr>,
      \<lparr>key = ''L_F2_2'', name = ''L_Finger_02_02_FK_Jnt'', parent = Some ''L_Finger_02_01_FK_Jnt'',
        side = ''L'', required = True\<rparr>]"
  by (simp add: append_fingers_def Let_def)

section \<open>Decimal formatting\<close>

lemma digit_char_inj: "d < 10 \<Longrightarrow> e < 10 \<Longrightarrow> digit_char d = digit_char e \<Longrightarrow> d = e"
  unfolding digit_char_def
  by (subst (asm) nth_eq_iff_index_eq) simp_all

lemma digit_char_in: "d < 10 \<Longrightarrow> digit_char d \<in> set ''0123456789''"
  unfolding digit_char_def by (rule nth_mem) simp

lemma dec_nat_nonempty: "dec_nat n \<noteq> []"
  by (subst dec_nat.simps) simp

lemma dec_nat_digits: "set (dec_nat n) \<subseteq> set ''0123456789''"
proof (induction n rule: dec_nat.induct)
  case (1 n)
  show ?case
  proof (cases "n < 10")
    case True
    then show ?thesis
      using digit_char_in [of n] by (subst dec_nat.simps) simp
  next
    case False
    then show ?thesis
      using 1 digit_char_in [of "n mod 10"] by (subst dec_nat.simps) simp
  qed
qed

lemma dec_nat_length: "10 \<le> n \<Longrightarrow> 2 \<le> length (dec_nat n)"
  using dec_nat_nonempty [of "n div 10"]
  by (subst dec_nat.simps) (cases "dec_nat (n div 10)"; simp)

lemma dec_nat_inj: "dec_nat m = dec_nat n \<Longrightarrow> m = n"
proof (induction m arbitrary: n rule: dec_nat.induct)
  case (1 m)
  show ?case
  proof (cases "m < 10")
    case m: True
    then have lm: "dec_nat m = [digit_char m]"
      by (subst dec_nat.simps) simp
    show ?thesis
    proof (cases "n < 10")
      case True
      then have "dec_nat n = [digit_char n]"
        by (subst dec_nat.simps) simp
      with lm "1.prems" m True show ?thesis
        by (simp add: digit_char_inj)
    next
      case False
      then have "2 \<le> length (dec_nat n)"
        by (simp add: dec_nat_length)
      with lm "1.prems" show ?thesis by simp
    qed
  next
    case m: False
    then have lm: "dec_nat m = dec_nat (m div 10) @ [digit_char (m mod 10)]"
      by (subst dec_nat.simps) simp
    show ?thesis
    proof (cases "n < 10")
      case True
      then have "dec_nat n = [digit_char n]"
        by (subst dec_nat.simps) simp
      moreover from m have "2 \<le> length (dec_nat m)"
        by (simp add: dec_nat_length)
      ultimately show ?thesis using "1.prems" by simp
    next
      case False
      then have ln: "dec_nat n = dec_nat (n div 10) @ [digit_char (n mod 10)]"
        by (subst dec_nat.simps) simp
      from lm ln "1.prems" have a: "dec_nat (m div 10) = dec_nat (n div 10)"
        and b: "digit_char (m mod 10) = digit_char (n mod 10)"
        by simp_all
      from a m have "m div 10 = n div 10"
        by (rule "1.IH" [rotated])
      moreover from b have "m mod 10 = n mod 10"
        by (rule digit_char_inj [rotated 2]) simp_all
      ultimately show ?thesis
        by (metis div_mult_mod_eq)
    qed
  qed
qed

lemma dec_nat_hd: "0 < n \<Longrightarrow> hd (dec_nat n) \<noteq> CHR ''0''"
proof (induction n rule: dec_nat.induct)
  case (1 n)
  show ?case
  proof (cases "n < 10")
    case True
    with "1.prems" have "digit_char n \<noteq> digit_char 0"
      using digit_char_inj [of n 0] by auto
    then show ?thesis
      using True by (subst dec_nat.simps) (simp add: digit_char_def)
  next
    case False
    then have "hd (dec_nat (n div 10)) \<noteq> CHR ''0''"
      using "1.IH" by simp
    then show ?thesis
      using False dec_nat_nonempty [of "n div 10"] by (subst dec_nat.simps) simp
  qed
qed

lemma fmt_02d_nonneg:
  "0 \<le> i \<Longrightarrow> fmt_02d i = (if i < 10 then [CHR ''0'', digit_char (nat i)] else dec_nat (nat i))"
proof -
  assume i: "0 \<le> i"
  show ?thesis
  proof (cases "i < 10")
    case True
    then have "nat i < 10"
      using i by simp
    then have "dec_nat (nat i) = [digit_char (nat i)]"
      using dec_nat.simps [of "nat i"] by simp
    then show ?thesis
      using i True by (simp add: fmt_02d_def py_str_def)
  next
    case False
    then have "2 \<le> length (dec_nat (nat i))"
      using dec_nat_length [of "nat i"] by simp
    then show ?thesis
      using i False by (simp add: fmt_02d_def py_str_def)
  qed
qed

lemma fmt_02d_digits: "0 \<le> i \<Longrightarrow> set (fmt_02d i) \<subseteq> set ''0123456789''"
  using dec_nat_digits [of "nat i"] digit_char_in [of "nat i"]
  by (auto simp: fmt_02d_nonneg)

lemma fmt_02d_inj: "0 \<le> i \<Longrightarrow> 0 \<le> j \<Longrightarrow> fmt_02d i = fmt_02d j \<Longrightarrow> i = j"
proof -
  assume i: "0 \<le> i" and j: "0 \<le> j" and eq: "fmt_02d i = fmt_02d j"
  have pad: "False" if a: "0 \<le> a" "a < 10" and b: "10 \<le> b"
    and e: "[CHR ''0'', digit_char (nat a)] = dec_nat (nat b)" for a b :: int
  proof -
    have "hd (dec_nat (nat b)) \<noteq> CHR ''0''"
      using b by (intro dec_nat_hd) simp
    with e [symmetric] show False by simp
  qed
  show ?thesis
  proof (cases "i < 10"; cases "j < 10")
    assume "i < 10" "j < 10"
    with i j eq have "digit_char (nat i) = digit_char (nat j)"
      by (simp add: fmt_02d_nonneg)
    then have "nat i = nat j"
      using \<open>i < 10\<close> \<open>j < 10\<close> by (intro digit_char_inj) simp_all
    with i j show ?thesis by simp
  next
    assume "i < 10" "\<not> j < 10"
    with i j eq pad [of i j] show ?thesis
      by (simp add: fmt_02d_nonneg)
  next
    assume "\<not> i < 10" "j < 10"
    with i j eq pad [of j i] show ?thesis
      by (simp add: fmt_02d_nonneg)
  next
    assume "\<not> i < 10" "\<not> j < 10"
    with i j eq have "dec_nat (nat i) = dec_nat (nat j)"
      by (simp add: fmt_02d_nonneg)
    then have "nat i = nat j" by (rule dec_nat_inj)
    with i j show ?thesis by simp
  qed
qed

lemma spine_loop_chain:
  "spine_loop ns (spec, prev) =
     (spec @ chain (\<lambda>i. ''SPN'' @ py_str i) spine_name ''C'' prev ns, last (prev # map spine_name ns))"
  by (induction ns arbitrary: spec prev) (simp_all add: Let_def spine_name_def)

lemma neck_loop_chain:
  "neck_loop ns (spec, prev) =
     (spec @ chain (\<lambda>i. ''NCK'' @ py_str i) neck_name ''C'' prev ns, last (prev # map neck_name ns))"
  by (induction ns arbitrary: spec prev) (simp_all add: Let_def neck_name_def)

lemma segment_loop_chain:
  "segment_loop f ns (spec, prev) =
     (spec @ chain (\<lambda>s. ''L_F'' @ py_str f @ ''_'' @ py_str s) (finger_name f) ''L'' prev ns,
      last (prev # map (finger_name f) ns))"
  by (induction ns arbitrary: spec prev) (simp_all add: Let_def finger_name_def)

lemma finger_loop_concat:
  "finger_loop fs segments spec =
     spec @ concat (map (finger_entries (range_py 1 (segments + 1))) fs)"
  by (induction fs arbitrary: spec) (simp_all add: Let_def segment_loop_chain finger_entries_def)

lemma append_fingers_eq:
  "append_fingers spec fc seg =
     spec @ concat (map (finger_entries (range_py 1 (seg + 1))) (range_py 1 (fc + 1)))"
  by (simp add: append_fingers_def finger_loop_concat)

lemma build_base_spec_eq:
  "build_base_spec sc nc =
     [\<lparr>key = ''COG'', name = ''COG_FK_Jnt'', parent = None, side = ''C'', required = True\<rparr>,
      \<lparr>key = ''PELV'', name = ''Pelvis_FK_Jnt'', parent = Some ''COG_FK_Jnt'',
        side = ''C'', required = True\<rparr>]
     @ chain (\<lambda>i. ''SPN'' @ py_str i) spine_name ''C'' ''Pelvis_FK_Jnt'' (range_py 1 (sc + 1))
     @ [\<lparr>key = ''CHEST'', name = ''Chest_FK_Jnt'',
         parent = Some (last (''Pelvis_FK_Jnt'' # map spine_name (range_py 1 (sc + 1)))),
         side = ''C'', required = True\<rparr>]
     @ chain (\<lambda>i. ''NCK'' @ py_str i) neck_name ''C'' ''Chest_FK_Jnt'' (range_py 1 (nc + 1))
     @ [\<lparr>key = ''HEAD'', name = ''Head_FK_Jnt'',
         parent = Some (last (''Chest_FK_Jnt'' # map neck_name (range_py 1 (nc + 1)))),
         side = ''C'', required = True\<rparr>]
     @ limbs"
  by (simp add: build_base_spec_def Let_def spine_loop_chain neck_loop_chain limbs_def)

lemma chain_names [simp]: "map name (chain kf nf sd prev ns) = map nf ns"
  by (induction ns arbitrary: prev) simp_all

lemma chain_sides: "e \<in> set (chain kf nf sd prev ns) \<Longrightarrow> side e = sd"
  by (induction ns arbitrary: prev) auto

lemma parents_earlier_mono:
  "parents_earlier seen es \<Longrightarrow> set seen \<subseteq> set seen' \<Longrightarrow> parents_earlier seen' es"
proof (induction es arbitrary: seen seen')
  case Nil
  then show ?case by simp
next
  case (Cons e es)
  have "parents_earlier (name e # seen') es"
  proof (rule Cons.IH)
    show "parents_earlier (name e # seen) es"
      using Cons.prems by simp
    show "set (name e # seen) \<subseteq> set (name e # seen')"
      using Cons.prems by auto
  qed
  with Cons.prems show ?case
    by (auto split: option.splits)
qed

lemma parents_earlier_append:
  "parents_earlier seen (xs @ ys) =
     (parents_earlier seen xs \<and> parents_earlier (rev (map name xs) @ seen) ys)"
  by (induction xs arbitrary: seen) auto

lemma parents_earlier_chain:
  "prev \<in> set seen \<Longrightarrow> parents_earlier seen (chain kf nf sd prev ns)"
  by (induction ns arbitrary: prev seen) simp_all

lemma parents_earlier_fingers:
  "''L_Hand_FK_Jnt'' \<in> set seen \<Longrightarrow> parents_earlier seen (concat (map (finger_entries ss) fs))"
proof (induction fs arbitrary: seen)
  case Nil
  then show ?case by simp
next
  case (Cons f fs)
  then show ?case
    by (simp add: parents_earlier_append parents_earlier_chain finger_entries_def)
qed

lemma last_in: "last (x # xs) \<in> set (x # xs)"
  by (rule last_in_set) simp

lemma parents_earlier_base: "parents_earlier [] (build_base_spec sc nc)"
proof -
  have a: "last (''Pelvis_FK_Jnt'' # map spine_name (range_py 1 (sc + 1)))
             \<in> set (''Pelvis_FK_Jnt'' # map spine_name (range_py 1 (sc + 1)))"
    by (rule last_in)
  have b: "last (''Chest_FK_Jnt'' # map neck_name (range_py 1 (nc + 1)))
             \<in> set (''Chest_FK_Jnt'' # map neck_name (range_py 1 (nc + 1)))"
    by (rule last_in)
  have l: "parents_earlier [''Pelvis_FK_Jnt'', ''Chest_FK_Jnt''] limbs"
    by (simp add: limbs_def)
  show ?thesis
    unfolding build_base_spec_eq parents_earlier_append
    apply (intro conjI)
         apply simp
        apply (rule parents_earlier_chain, simp)
       apply (use a in auto)[1]
      apply (rule parents_earlier_chain, simp)
     apply (use b in auto)[1]
    apply (rule parents_earlier_mono [OF l], simp)
    done
qed

lemma range_py_set: "set (range_py a b) = {a..b - 1}"
  by (simp add: range_py_def)

lemma range_py_distinct: "distinct (range_py a b)"
  by (simp add: range_py_def)

lemma spine_name_inj: "0 \<le> i \<Longrightarrow> 0 \<le> j \<Longrightarrow> spine_name i = spine_name j \<Longrightarrow> i = j"
  by (simp add: spine_name_def fmt_02d_inj)

lemma neck_name_inj: "0 \<le> i \<Longrightarrow> 0 \<le> j \<Longrightarrow> neck_name i = neck_name j \<Longrightarrow> i = j"
  by (simp add: neck_name_def fmt_02d_inj)

lemma split_unique:
  "c \<notin> set a \<Longrightarrow> c \<notin> set a' \<Longrightarrow> a @ c # b = a' @ c # b' \<Longrightarrow> a = a' \<and> b = b'"
proof (induction a arbitrary: a')
  case Nil
  then show ?case by (cases a') auto
next
  case (Cons x a)
  then show ?case by (cases a') auto
qed

lemma underscore_not_digit: "0 \<le> i \<Longrightarrow> CHR ''_'' \<notin> set (fmt_02d i)"
  using fmt_02d_digits [of i] by auto

lemma finger_name_inj:
  assumes "0 \<le> f" "0 \<le> f'" "0 \<le> s" "0 \<le> s'"
    and eq: "finger_name f s = finger_name f' s'"
  shows "f = f' \<and> s = s'"
proof -
  from eq have "fmt_02d f @ CHR ''_'' # fmt_02d s = fmt_02d f' @ CHR ''_'' # fmt_02d s'"
    by (simp add: finger_name_def)
  then have "fmt_02d f = fmt_02d f' \<and> fmt_02d s = fmt_02d s'"
    by (rule split_unique [OF underscore_not_digit [OF assms(1)] underscore_not_digit [OF assms(2)]])
  with assms show ?thesis
    by (auto dest: fmt_02d_inj)
qed

lemma distinct_spine_names: "distinct (map spine_name (range_py 1 n))"
proof -
  have "inj_on spine_name (set (range_py 1 n))"
  proof (rule inj_onI)
    fix x y assume "x \<in> set (range_py 1 n)" "y \<in> set (range_py 1 n)"
      and "spine_name x = spine_name y"
    then show "x = y"
      using spine_name_inj [of x y] by (simp add: range_py_set)
  qed
  then show ?thesis
    by (simp add: distinct_map range_py_distinct)
qed

lemma distinct_neck_names: "distinct (map neck_name (range_py 1 n))"
proof -
  have "inj_on neck_name (set (range_py 1 n))"
  proof (rule inj_onI)
    fix x y assume "x \<in> set (range_py 1 n)" "y \<in> set (range_py 1 n)"
      and "neck_name x = neck_name y"
    then show "x = y"
      using neck_name_inj [of x y] by (simp add: range_py_set)
  qed
  then show ?thesis
    by (simp add: distinct_map range_py_distinct)
qed

lemma distinct_finger_names:
  "distinct fs \<Longrightarrow> distinct ss \<Longrightarrow> \<forall>f\<in>set fs. 0 \<le> f \<Longrightarrow> \<forall>s\<in>set ss. 0 \<le> s
   \<Longrightarrow> distinct (concat (map (\<lambda>f. map (finger_name f) ss) fs))"
proof (induction fs)
  case Nil
  then show ?case by simp
next
  case (Cons f fs)
  have "inj_on (finger_name f) (set ss)"
  proof (rule inj_onI)
    fix x y assume "x \<in> set ss" "y \<in> set ss" and "finger_name f x = finger_name f y"
    then show "x = y"
      using Cons.prems finger_name_inj [of f f x y] by simp
  qed
  then have a: "distinct (map (finger_name f) ss)"
    using Cons.prems by (simp add: distinct_map)
  have b: "distinct (concat (map (\<lambda>f. map (finger_name f) ss) fs))"
    using Cons by simp
  have c: "finger_name f s \<noteq> finger_name f' s'"
    if "s \<in> set ss" "f' \<in> set fs" "s' \<in> set ss" for s f' s'
    using that Cons.prems finger_name_inj [of f f' s s'] by auto
  show ?case
    using a b c by auto
qed

lemma names_base:
  "map name (build_base_spec sc nc) =
     ''COG_FK_Jnt'' # ''Pelvis_FK_Jnt'' # map spine_name (range_py 1 (sc + 1))
     @ ''Chest_FK_Jnt'' # map neck_name (range_py 1 (nc + 1)) @ fixed_names"
  by (simp add: build_base_spec_eq limbs_def fixed_names_def)

lemma names_fingers:
  "map name (concat (map (finger_entries ss) fs)) = concat (map (\<lambda>f. map (finger_name f) ss) fs)"
  by (induction fs) (simp_all add: finger_entries_def)

lemma spine_not_fixed: "spine_name i \<notin> set (''COG_FK_Jnt'' # ''Pelvis_FK_Jnt'' # ''Chest_FK_Jnt'' # fixed_names)"
  by (simp add: spine_name_def fixed_names_def)

lemma neck_not_fixed: "neck_name i \<notin> set (''COG_FK_Jnt'' # ''Pelvis_FK_Jnt'' # ''Chest_FK_Jnt'' # fixed_names)"
  by (simp add: neck_name_def fixed_names_def)

lemma finger_not_fixed: "finger_name f s \<notin> set (''COG_FK_Jnt'' # ''Pelvis_FK_Jnt'' # ''Chest_FK_Jnt'' # fixed_names)"
  by (simp add: finger_name_def fixed_names_def)

lemma spine_not_neck: "spine_name i \<noteq> neck_name j"
  by (simp add: spine_name_def neck_name_def)

lemma finger_not_spine: "finger_name f s \<noteq> spine_name i" "finger_name f s \<noteq> neck_name i"
  by (simp_all add: spine_name_def neck_name_def finger_name_def)

lemma distinct_fixed: "distinct (''COG_FK_Jnt'' # ''Pelvis_FK_Jnt'' # ''Chest_FK_Jnt'' # fixed_names)"
  by (simp add: fixed_names_def)

lemma distinct_names_base: "distinct (map name (build_base_spec sc nc))"
  by (auto simp: names_base distinct_spine_names distinct_neck_names fixed_names_def
      spine_name_def neck_name_def)

lemma distinct_names_fingers:
  "distinct (map name (append_fingers (build_base_spec sc nc) fc seg))"
proof -
  let ?F = "concat (map (\<lambda>f. map (finger_name f) (range_py 1 (seg + 1))) (range_py 1 (fc + 1)))"
  have d: "distinct ?F"
    by (rule distinct_finger_names) (auto simp: range_py_distinct range_py_set)
  have n: "x \<notin> set (map name (build_base_spec sc nc))" if "x \<in> set ?F" for x
  proof -
    from that obtain f s where x: "x = finger_name f s" by auto
    show ?thesis
      unfolding x names_base
      by (auto simp: fixed_names_def spine_name_def neck_name_def finger_name_def)
  qed
  show ?thesis
    using d n distinct_names_base [of sc nc]
    by (auto simp: append_fingers_eq names_fingers)
qed

lemma parents_earlier_nth:
  "parents_earlier seen spec \<Longrightarrow> i < length spec \<Longrightarrow> parent (spec ! i) = Some p
   \<Longrightarrow> p \<in> set seen \<or> (\<exists>j<i. name (spec ! j) = p)"
proof (induction spec arbitrary: seen i)
  case Nil
  then show ?case by simp
next
  case (Cons e es)
  show ?case
  proof (cases i)
    case 0
    with Cons.prems show ?thesis by simp
  next
    case (Suc k)
    with Cons.prems have "p \<in> set (name e # seen) \<or> (\<exists>j<k. name (es ! j) = p)"
      by (intro Cons.IH) simp_all
    then show ?thesis
    proof (elim disjE exE conjE)
      assume "p \<in> set (name e # seen)"
      then show ?thesis using Suc by auto
    next
      fix j assume "j < k" "name (es ! j) = p"
      then have "Suc j < i \<and> name ((e # es) ! Suc j) = p" using Suc by simp
      then show ?thesis by blast
    qed
  qed
qed

lemma parents_earlier_all:
  "parents_earlier [] (append_fingers (build_base_spec sc nc) fc seg)"
proof -
  have "''L_Hand_FK_Jnt'' \<in> set (map name (build_base_spec sc nc))"
    by (simp add: names_base fixed_names_def)
  then show ?thesis
    by (simp add: append_fingers_eq parents_earlier_append parents_earlier_base
        parents_earlier_fingers)
qed

section \<open>The generated spec\<close>

lemma replace_scan_same: "new = old \<Longrightarrow> replace_scan old new s = s"
proof (induction old new s rule: replace_scan.induct)
  case (1 old new)
  then show ?case by simp
next
  case (2 old new c cs)
  show ?case
  proof (cases "old \<noteq> [] \<and> take (length old) (c # cs) = old")
    case True
    then have "replace_scan old new (c # cs)
                 = take (length old) (c # cs) @ drop (length old) (c # cs)"
      using 2 by simp
    then show ?thesis by (simp only: append_take_drop_id)
  next
    case False
    then show ?thesis using 2 by auto
  qed
qed

lemma replace_scan_jnt:
  "CHR ''J'' \<notin> set q \<Longrightarrow> replace_scan ''_Jnt'' ''_Guide'' (q @ ''_Jnt'') = q @ ''_Guide''"
proof (induction q)
  case Nil
  then show ?case by simp
next
  case (Cons c q)
  then have "take (length ''_Jnt'') (c # q @ ''_Jnt'') \<noteq> ''_Jnt''"
    by (cases q) auto
  with Cons show ?case by auto
qed

lemma guide_name_jnt:
  "CHR ''J'' \<notin> set q \<Longrightarrow> guide_name_for_joint (q @ ''_Jnt'') = q @ ''_Guide''"
  by (simp add: guide_name_for_joint_def py_replace_def replace_scan_jnt replace_scan_same)

lemma joint_formI: "CHR ''J'' \<notin> set p \<Longrightarrow> joint_form (p @ ''_FK_Jnt'')"
  by (simp add: joint_form_def endswith_def)

lemma joint_formD:
  assumes "joint_form n"
  shows "\<exists>p. n = p @ ''_FK_Jnt'' \<and> CHR ''J'' \<notin> set p"
proof -
  let ?k = "length n - length ''_FK_Jnt''"
  let ?p = "take ?k n"
  from assms have "drop ?k n = ''_FK_Jnt''" and j: "CHR ''J'' \<notin> set ?p"
    by (simp_all add: joint_form_def endswith_def)
  then have "n = ?p @ ''_FK_Jnt''"
    using append_take_drop_id [of ?k n] by simp
  with j show ?thesis by blast
qed

lemma joint_form_guide:
  assumes "joint_form n"
  shows "endswith n ''_Jnt''"
    and "guide_name_for_joint n = take (length n - length ''_Jnt'') n @ ''_Guide''"
proof -
  from joint_formD [OF assms] obtain p where n: "n = p @ ''_FK_Jnt''" and j: "CHR ''J'' \<notin> set p"
    by blast
  have n': "n = (p @ ''_FK'') @ ''_Jnt''"
    using n by simp
  show "endswith n ''_Jnt''"
    unfolding n by (simp add: endswith_def)
  have "guide_name_for_joint n = (p @ ''_FK'') @ ''_Guide''"
    unfolding n' using j by (intro guide_name_jnt) simp
  moreover have "take (length n - length ''_Jnt'') n = p @ ''_FK''"
    unfolding n by simp
  ultimately show "guide_name_for_joint n = take (length n - length ''_Jnt'') n @ ''_Guide''"
    by simp
qed

lemma fmt_02d_no_J: "0 \<le> i \<Longrightarrow> CHR ''J'' \<notin> set (fmt_02d i)"
  using fmt_02d_digits [of i] by auto

lemma joint_form_fixed:
  "n \<in> set (''COG_FK_Jnt'' # ''Pelvis_FK_Jnt'' # ''Chest_FK_Jnt'' # fixed_names) \<Longrightarrow> joint_form n"
  by (auto simp: fixed_names_def joint_form_def endswith_def)

lemma joint_form_spine: "0 \<le> i \<Longrightarrow> joint_form (spine_name i)"
  unfolding spine_name_def using joint_formI [of "''Spine_'' @ fmt_02d i"]
  by (simp add: fmt_02d_no_J)

lemma joint_form_neck: "0 \<le> i \<Longrightarrow> joint_form (neck_name i)"
  unfolding neck_name_def using joint_formI [of "''Neck_'' @ fmt_02d i"]
  by (simp add: fmt_02d_no_J)

lemma joint_form_finger: "0 \<le> f \<Longrightarrow> 0 \<le> s \<Longrightarrow> joint_form (finger_name f s)"
  unfolding finger_name_def
  using joint_formI [of "''L_Finger_'' @ fmt_02d f @ ''_'' @ fmt_02d s"]
  by (simp add: fmt_02d_no_J)

lemma names_generated:
  "set (map name (append_fingers (build_base_spec sc nc) fc seg)) =
     set (''COG_FK_Jnt'' # ''Pelvis_FK_Jnt'' # ''Chest_FK_Jnt'' # fixed_names)
     \<union> spine_name ` {1..sc} \<union> neck_name ` {1..nc}
     \<union> (\<Union>f\<in>{1..fc}. finger_name f ` {1..seg})"
  unfolding append_fingers_eq map_append set_append names_base names_fingers
  by (auto simp: range_py_set)

lemma joint_form_generated:
  "n \<in> set (map name (append_fingers (build_base_spec sc nc) fc seg)) \<Longrightarrow> joint_form n"
  unfolding names_generated
  using joint_form_fixed [of n]
  by (auto simp: joint_form_spine joint_form_neck joint_form_finger)

lemma append_fingers_none: "fc \<le> 0 \<Longrightarrow> append_fingers spec fc seg = spec"
  by (simp add: append_fingers_def range_py_def)

lemma rebuild_spec_spec:
  "self_spec (rebuild_spec sc nc fc seg w) = append_fingers (build_base_spec sc nc) fc seg"
  by (simp add: rebuild_spec_def Let_def append_fingers_none)

lemma rebuild_spec_groups:
  "self_guides_grp (rebuild_spec sc nc fc seg w) = self_guides_grp w"
  "self_joints_grp (rebuild_spec sc nc fc seg w) = self_joints_grp w"
  by (simp_all add: rebuild_spec_def Let_def)

lemma sides_generated:
  "e \<in> set (append_fingers (build_base_spec sc nc) fc seg) \<Longrightarrow> side e = ''C'' \<or> side e = ''L''"
  unfolding append_fingers_eq build_base_spec_eq
  by (auto simp: limbs_def finger_entries_def dest: chain_sides)

lemma not_right_generated:
  "n \<in> set (map name (append_fingers (build_base_spec sc nc) fc seg)) \<Longrightarrow> \<not> startswith n ''R_''"
  unfolding names_generated
  by (auto simp: fixed_names_def startswith_def spine_name_def neck_name_def finger_name_def)

lemma well_formed_generated:
  "parents_earlier [] (append_fingers (build_base_spec sc nc) fc seg)"
  "distinct (map name (append_fingers (build_base_spec sc nc) fc seg))"
  by (rule parents_earlier_all, rule distinct_names_fingers)

lemma parents_earlier_index:
  assumes "parents_earlier [] spec" and "i < length spec"
  shows "parent (spec ! i) = None \<or> (\<exists>j<i. parent (spec ! i) = Some (name (spec ! j)))"
proof (cases "parent (spec ! i)")
  case None
  then show ?thesis by simp
next
  case (Some p)
  with parents_earlier_nth [OF assms this] show ?thesis by auto
qed

text \<open>
  Claim C1. Spec generation is deterministic and the generated spec is well formed.
  The builders read nothing but their arguments, so equal counts give equal sequences of
  steps (every field of every step, in order). For all counts, in the base spec and in
  the base spec extended by \<^verbatim>\<open>append_fingers\<close>, the parent of every step is
  \<^verbatim>\<open>None\<close> or the name of a step at a strictly smaller index, and the names are
  pairwise distinct.
\<close>

theorem spec_generation_well_formed:
  "(sc' = sc \<and> nc' = nc \<and> fc' = fc \<and> seg' = seg \<longrightarrow>
      build_base_spec sc' nc' = build_base_spec sc nc
      \<and> append_fingers (build_base_spec sc' nc') fc' seg'
          = append_fingers (build_base_spec sc nc) fc seg)
   \<and> (\<forall>i < length (build_base_spec sc nc).
         parent (build_base_spec sc nc ! i) = None
         \<or> (\<exists>j<i. parent (build_base_spec sc nc ! i) = Some (name (build_base_spec sc nc ! j))))
   \<and> distinct (map name (build_base_spec sc nc))
   \<and> (\<forall>i < length (append_fingers (build_base_spec sc nc) fc seg).
         parent (append_fingers (build_base_spec sc nc) fc seg ! i) = None
         \<or> (\<exists>j<i. parent (append_fingers (build_base_spec sc nc) fc seg ! i)
                     = Some (name (append_fingers (build_base_spec sc nc) fc seg ! j))))
   \<and> distinct (map name (append_fingers (build_base_spec sc nc) fc seg))"
  using parents_earlier_index [OF parents_earlier_base [of sc nc]]
    parents_earlier_index [OF parents_earlier_all [of sc nc fc seg]]
    distinct_names_base [of sc nc] distinct_names_fingers [of sc nc fc seg]
  by blast

lemma gen_3_3_2_2:
  "append_fingers (build_base_spec 3 3) 2 2 = build_base_spec 3 3 @
     [\<lparr>key = ''L_F1_1'', name = ''L_Finger_01_01_FK_Jnt'', parent = Some ''L_Hand_FK_Jnt'',
        side = ''L'', required = True\<rparr>,
      \<lparr>key = ''L_F1_2'', name = ''L_Finger_01_02_FK_Jnt'', parent = Some ''L_Finger_01_01_FK_Jnt'',
        side = ''L'', required = True\<rparr>,
      \<lparr>key = ''L_F2_1'', name = ''L_Finger_02_01_FK_Jnt'', parent = Some ''L_Hand_FK_Jnt'',
        side = ''L'', required = True\<rparr>,
      \<lparr>key = ''L_F2_2'', name = ''L_Finger_02_02_FK_Jnt'', parent = Some ''L_Finger_02_01_FK_Jnt'',
        side = ''L'', required = True\<rparr>]"
  by (simp add: append_fingers_def Let_def)

lemma names_3_3:
  "map name (build_base_spec 3 3) =
     [''COG_FK_Jnt'', ''Pelvis_FK_Jnt'', ''Spine_01_FK_Jnt'', ''Spine_02_FK_Jnt'',
      ''Spine_03_FK_Jnt'', ''Chest_FK_Jnt'', ''Neck_01_FK_Jnt'', ''Neck_02_FK_Jnt'',
      ''Neck_03_FK_Jnt'', ''Head_FK_Jnt'', ''L_Clav_FK_Jnt'', ''L_Arm_01_FK_Jnt'',
      ''L_Arm_02_FK_Jnt'', ''L_Arm_03_FK_Jnt'', ''L_Hand_FK_Jnt'', ''L_Leg_Clav_FK_Jnt'',
      ''L_Leg_01_FK_Jnt'', ''L_Leg_02_FK_Jnt'', ''L_Leg_03_FK_Jnt'', ''L_Foot_01_FK_Jnt'',
      ''L_Foot_02_FK_Jnt'', ''L_Foot_03_FK_Jnt'']"
  by (simp add: build_base_spec_def Let_def)

theorem spec_generation_well_formed_witness:
  "length (append_fingers (build_base_spec 3 3) 2 2) = 26
   \<and> (\<exists>j<25. parent (append_fingers (build_base_spec 3 3) 2 2 ! 25)
                = Some (name (append_fingers (build_base_spec 3 3) 2 2 ! j)))
   \<and> distinct (map name (append_fingers (build_base_spec 3 3) 2 2))
   \<and> distinct (map name (build_base_spec 3 3))"
proof -
  have len: "length (append_fingers (build_base_spec 3 3) 2 2) = 26"
    using arg_cong [OF names_3_3, of length] by (simp add: gen_3_3_2_2)
  have p: "parent (append_fingers (build_base_spec 3 3) 2 2 ! 25) \<noteq> None"
    using arg_cong [OF names_3_3, of length] by (simp add: gen_3_3_2_2 nth_append)
  note w = spec_generation_well_formed [of 3 3 3 3 2 2 2 2]
  from w have "\<forall>i < length (append_fingers (build_base_spec 3 3) 2 2).
         parent (append_fingers (build_base_spec 3 3) 2 2 ! i) = None
         \<or> (\<exists>j<i. parent (append_fingers (build_base_spec 3 3) 2 2 ! i)
                     = Some (name (append_fingers (build_base_spec 3 3) 2 2 ! j)))"
    by blast
  from this [rule_format, of 25] len p
  have "\<exists>j<25. parent (append_fingers (build_base_spec 3 3) 2 2 ! 25)
                = Some (name (append_fingers (build_base_spec 3 3) 2 2 ! j))"
    by simp
  with w len show ?thesis by blast
qed

text \<open>
  Claim C8. For every joint name of a generated spec, \<^verbatim>\<open>guide_name_for_joint\<close>
  returns the name with its suffix \<^verbatim>\<open>_Jnt\<close> replaced by \<^verbatim>\<open>_Guide\<close>, and the
  mapping is injective on generated names: two names of generated specs (of the same or
  of different counts) with the same guide name are equal.
\<close>

theorem guide_name_for_joint_generated:
  assumes "n \<in> set (map name (append_fingers (build_base_spec sc nc) fc seg))"
    and "n' \<in> set (map name (append_fingers (build_base_spec sc' nc') fc' seg'))"
  shows "endswith n ''_Jnt''
    \<and> guide_name_for_joint n = take (length n - length ''_Jnt'') n @ ''_Guide''
    \<and> (guide_name_for_joint n = guide_name_for_joint n' \<longrightarrow> n = n')"
proof -
  have a: "joint_form n" and b: "joint_form n'"
    by (rule joint_form_generated [OF assms(1)], rule joint_form_generated [OF assms(2)])
  note ga = joint_form_guide [OF a] and gb = joint_form_guide [OF b]
  have "n = n'" if "guide_name_for_joint n = guide_name_for_joint n'"
  proof -
    let ?k = "length ''_Jnt''"
    from that ga(2) gb(2) have t: "take (length n - ?k) n = take (length n' - ?k) n'"
      by simp
    from ga(1) have "n = take (length n - ?k) n @ ''_Jnt''"
      using append_take_drop_id [of "length n - ?k" n] by (simp add: endswith_def)
    moreover from gb(1) have "n' = take (length n' - ?k) n' @ ''_Jnt''"
      using append_take_drop_id [of "length n' - ?k" n'] by (simp add: endswith_def)
    ultimately show ?thesis using t by metis
  qed
  with ga show ?thesis by blast
qed

theorem guide_name_for_joint_generated_witness:
  "endswith ''Spine_03_FK_Jnt'' ''_Jnt''
   \<and> guide_name_for_joint ''Spine_03_FK_Jnt'' = ''Spine_03_FK_Guide''
   \<and> guide_name_for_joint ''Spine_03_FK_Jnt'' \<noteq> guide_name_for_joint ''L_Finger_02_01_FK_Jnt''"
proof -
  have a: "''Spine_03_FK_Jnt'' \<in> set (map name (append_fingers (build_base_spec 3 3) 2 2))"
    by (simp add: gen_3_3_2_2 names_3_3)
  have b: "''L_Finger_02_01_FK_Jnt'' \<in> set (map name (append_fingers (build_base_spec 3 3) 2 2))"
    by (simp add: gen_3_3_2_2 names_3_3)
  show ?thesis
    using guide_name_for_joint_generated [OF a b] by auto
qed

section \<open>Mirroring a position, and operations on an empty selection\<close>


lemma objExists_iff: "objExists sc n \<longleftrightarrow> (\<exists>nd. nodes sc n = Some nd)"
  by (simp add: objExists_def)

lemma mirror_x_world_result:
  assumes src: "nodes sc src = Some a" and dst: "nodes sc dst = Some b"
    and t: "translation (world a) = (x, y, z)"
  shows "mirror_x_world src dst sc =
           Some (sc\<lparr>nodes := (nodes sc)(dst \<mapsto>
                   b\<lparr>world := (world b)\<lparr>translation := (fneg x, y, z),
                                          rotation := rotation (world a)\<rparr>\<rparr>)\<rparr>)"
  using assms
  by (simp add: mirror_x_world_def xform_q_ws_t_def xform_q_ws_ro_def xform_ws_t_def
      xform_ws_ro_def)



text \<open>
  Claim C9. When no transform is selected, \<^verbatim>\<open>MirrorControls\<close> emits the warning and
  returns at once: whatever the host's duplicate, rename and parent commands would do,
  none of them runs, and the node table, the selection and the attributes of the scene
  are unchanged. \<^verbatim>\<open>snap_to_selection\<close> returns \<^verbatim>\<open>False\<close> and leaves the whole
  scene, the target node included, as it was.
\<close>

theorem empty_selection_skips:
  assumes "ls_sl_transform sc = []"
  shows "MirrorControls h sc = Some (cmds_warning ''please select at least one control'' sc)
    \<and> nodes (cmds_warning ''please select at least one control'' sc) = nodes sc
    \<and> selection (cmds_warning ''please select at least one control'' sc) = selection sc
    \<and> attrs (cmds_warning ''please select at least one control'' sc) = attrs sc
    \<and> warnings (cmds_warning ''please select at least one control'' sc)
         = warnings sc @ [''please select at least one control'']
    \<and> snap_to_selection nd sc = Some (False, sc)"
  using assms
  by (simp add: MirrorControls_def snap_to_selection_def cmds_warning_def)

theorem empty_selection_skips_witness:
  "ls_sl_transform (two_guides\<lparr>selection := [''pCube1.vtx[0]'']\<rparr>) = []
   \<and> MirrorControls no_host (two_guides\<lparr>selection := [''pCube1.vtx[0]'']\<rparr>)
       = Some (two_guides\<lparr>selection := [''pCube1.vtx[0]''],
                          warnings := [''please select at least one control'']\<rparr>)
   \<and> snap_to_selection ''L_Hand_FK_Guide'' (two_guides\<lparr>selection := [''pCube1.vtx[0]'']\<rparr>)
       = Some (False, two_guides\<lparr>selection := [''pCube1.vtx[0]'']\<rparr>)"
proof -
  have e: "ls_sl_transform (two_guides\<lparr>selection := [''pCube1.vtx[0]'']\<rparr>) = []"
    by (simp add: ls_sl_transform_def objExists_def two_guides_def)
  show ?thesis
    using empty_selection_skips [OF e, of no_host "''L_Hand_FK_Guide''"] e
    by (simp add: cmds_warning_def two_guides_def)
qed

section \<open>Left and right\<close>

lemma chain_entry:
  "e \<in> set (chain kf nf sd prev ns) \<Longrightarrow> side e = sd \<and> name e \<in> nf ` set ns"
  by (induction ns arbitrary: prev) auto

lemma left_entries_generated:
  assumes "e \<in> set (append_fingers (build_base_spec sc nc) fc seg)" and "side e = ''L''"
  shows "startswith (name e) ''L_''"
proof -
  from assms(1) consider
      (fixed) "e \<in> set (take 2 (build_base_spec sc nc))"
    | (spine) "e \<in> set (chain (\<lambda>i. ''SPN'' @ py_str i) spine_name ''C'' ''Pelvis_FK_Jnt''
                  (range_py 1 (sc + 1)))"
    | (chest) "name e = ''Chest_FK_Jnt'' \<and> side e = ''C''"
    | (neck) "e \<in> set (chain (\<lambda>i. ''NCK'' @ py_str i) neck_name ''C'' ''Chest_FK_Jnt''
                  (range_py 1 (nc + 1)))"
    | (head) "name e = ''Head_FK_Jnt'' \<and> side e = ''C''"
    | (limbs) "e \<in> set limbs"
    | (finger) f where "e \<in> set (finger_entries (range_py 1 (seg + 1)) f)"
    unfolding append_fingers_eq build_base_spec_eq by auto
  then show ?thesis
  proof cases
    case fixed
    then show ?thesis using assms(2) by (auto simp: build_base_spec_eq)
  next
    case spine
    then show ?thesis using assms(2) chain_entry [OF spine] by simp
  next
    case chest
    then show ?thesis using assms(2) by simp
  next
    case neck
    then show ?thesis using assms(2) chain_entry [OF neck] by simp
  next
    case head
    then show ?thesis using assms(2) by simp
  next
    case limbs
    then show ?thesis by (auto simp: limbs_def startswith_def)
  next
    case finger
    then show ?thesis
      using chain_entry [OF finger [unfolded finger_entries_def]]
      by (auto simp: finger_name_def startswith_def)
  qed
qed

lemma right_guide_name:
  assumes "joint_form n" and "startswith n ''L_''"
  shows "startswith (guide_name_for_joint (swap_LR n)) ''R_''"
    and "guide_name_for_joint (swap_LR n) \<noteq> ''RigGuides_GRP''"
proof -
  from joint_formD [OF assms(1)] obtain p where n: "n = p @ ''_FK_Jnt''" and j: "CHR ''J'' \<notin> set p"
    by blast
  define r where "r = p @ ''_FK''"
  have n': "n = r @ ''_Jnt''" and jr: "CHR ''J'' \<notin> set r"
    using n j by (simp_all add: r_def)
  have "length ''L_'' \<le> length r"
    by (simp add: r_def)
  then have "take (length ''L_'') r = take (length ''L_'') n"
    unfolding n' by simp
  with assms(2) have "startswith r ''L_''"
    by (simp add: startswith_def)
  then have r: "r = CHR ''L'' # CHR ''_'' # drop 2 r"
    by (rule startswith_split2)
  define q where "q = drop 2 r"
  have "set q \<subseteq> set r"
    unfolding q_def by (rule set_drop_subset)
  then have jq: "CHR ''J'' \<notin> set (''R_'' @ q)"
    using jr by auto
  have "n = ''L_'' @ q @ ''_Jnt''"
    using n' r by (simp add: q_def)
  then have sw: "swap_LR n = (''R_'' @ q) @ ''_Jnt''"
    using swap_LR_left [of "q @ ''_Jnt''"] by simp
  have "guide_name_for_joint (swap_LR n) = (''R_'' @ q) @ ''_Guide''"
    unfolding sw by (rule guide_name_jnt [OF jq])
  then show "startswith (guide_name_for_joint (swap_LR n)) ''R_''"
    and "guide_name_for_joint (swap_LR n) \<noteq> ''RigGuides_GRP''"
    by (simp_all add: startswith_def)
qed

lemma mirror_step_nodes:
  assumes grp: "objExists sc (self_guides_grp w)"
    and ne: "guide_name_for_joint (swap_LR (name e)) \<noteq> self_guides_grp w"
  shows "\<exists>sc'. mirror_step w e sc = Some sc'
           \<and> (\<forall>n. objExists sc' n \<longleftrightarrow>
                  objExists sc n
                  \<or> (objExists sc (guide_name_for_joint (name e))
                     \<and> n = guide_name_for_joint (swap_LR (name e))))"
proof (cases "objExists sc (guide_name_for_joint (name e))")
  case False
  then show ?thesis by (simp add: mirror_step_def Let_def)
next
  case gl: True
  let ?gL = "guide_name_for_joint (name e)"
  let ?gR = "guide_name_for_joint (swap_LR (name e))"
  from gl obtain a where a: "nodes sc ?gL = Some a"
    by (auto simp: objExists_def)
  obtain x y z where t: "translation (world a) = (x, y, z)"
    by (cases "translation (world a)") auto
  show ?thesis
  proof (cases "objExists sc ?gR")
    case True
    then obtain b where b: "nodes sc ?gR = Some b"
      by (auto simp: objExists_def)
    show ?thesis
      using gl True mirror_x_world_result [OF a b t]
      by (auto simp: mirror_step_def Let_def objExists_def)
  next
    case False
    define nd :: node where
      "nd = \<lparr>is_joint = False, node_parent = Some (self_guides_grp w), world = identity_matrix\<rparr>"
    define sc1 where
      "sc1 = sc\<lparr>nodes := (nodes sc)(?gR \<mapsto> nd), selection := [?gR],
                attrs := (attrs sc)(?gR @ ''.localScaleX'' \<mapsto> 2, ?gR @ ''.localScaleY'' \<mapsto> 2,
                                    ?gR @ ''.localScaleZ'' \<mapsto> 2)\<rparr>"
    have neq: "?gL \<noteq> ?gR"
      using gl False by auto
    have a1: "nodes sc1 ?gL = Some a" and b1: "nodes sc1 ?gR = Some nd"
      using a neq by (simp_all add: sc1_def)
    have "mirror_step w e sc = mirror_x_world ?gL ?gR sc1"
      using gl False grp ne
      by (auto simp: mirror_step_def Let_def cmds_spaceLocator_def cmds_parent_def
          cmds_setAttr_def objExists_def sc1_def nd_def)
    with mirror_x_world_result [OF a1 b1 t] obtain sc' where
      r: "mirror_step w e sc = Some sc'"
      and n: "nodes sc' = (nodes sc1)(?gR \<mapsto>
                nd\<lparr>world := (world nd)\<lparr>translation := (fneg x, y, z),
                                            rotation := rotation (world a)\<rparr>\<rparr>)"
      by simp
    have "objExists sc' n \<longleftrightarrow> objExists sc n \<or> (objExists sc ?gL \<and> n = ?gR)" for n
      using gl by (simp add: objExists_def n sc1_def)
    with r show ?thesis by blast
  qed
qed

lemma mirror_loop_nodes:
  assumes "objExists sc (self_guides_grp w)"
    and "\<forall>e\<in>set es. guide_name_for_joint (swap_LR (name e)) \<noteq> self_guides_grp w"
  shows "\<exists>sc'. mirror_loop w es sc = Some sc'
           \<and> (\<forall>n. objExists sc n \<longrightarrow> objExists sc' n)
           \<and> (\<forall>n. objExists sc' n \<longrightarrow> objExists sc n
                  \<or> (\<exists>e\<in>set es. n = guide_name_for_joint (swap_LR (name e))))
           \<and> (\<forall>e\<in>set es. objExists sc (guide_name_for_joint (name e)) \<longrightarrow>
                  objExists sc' (guide_name_for_joint (swap_LR (name e))))"
  using assms
proof (induction es arbitrary: sc)
  case Nil
  then show ?case by simp
next
  case (Cons e es)
  from Cons.prems have ne: "guide_name_for_joint (swap_LR (name e)) \<noteq> self_guides_grp w"
    by simp
  from mirror_step_nodes [OF Cons.prems(1) ne] obtain sc1 where
    s1: "mirror_step w e sc = Some sc1"
    and n1: "\<forall>n. objExists sc1 n \<longleftrightarrow>
                  objExists sc n
                  \<or> (objExists sc (guide_name_for_joint (name e))
                     \<and> n = guide_name_for_joint (swap_LR (name e)))"
    by blast
  have g1: "objExists sc1 (self_guides_grp w)"
    using n1 Cons.prems(1) by simp
  from Cons.IH [OF g1] Cons.prems(2) obtain sc' where
    l: "mirror_loop w es sc1 = Some sc'"
    and up: "\<forall>n. objExists sc1 n \<longrightarrow> objExists sc' n"
    and down: "\<forall>n. objExists sc' n \<longrightarrow> objExists sc1 n
                  \<or> (\<exists>e\<in>set es. n = guide_name_for_joint (swap_LR (name e)))"
    and made: "\<forall>e\<in>set es. objExists sc1 (guide_name_for_joint (name e)) \<longrightarrow>
                  objExists sc' (guide_name_for_joint (swap_LR (name e)))"
    by auto
  have "mirror_loop w (e # es) sc = Some sc'"
    using s1 l by simp
  moreover have "\<forall>n. objExists sc n \<longrightarrow> objExists sc' n"
    using n1 up by blast
  moreover have "\<forall>n. objExists sc' n \<longrightarrow> objExists sc n
                  \<or> (\<exists>e'\<in>set (e # es). n = guide_name_for_joint (swap_LR (name e')))"
    using n1 down by auto
  moreover have "\<forall>e'\<in>set (e # es). objExists sc (guide_name_for_joint (name e')) \<longrightarrow>
                  objExists sc' (guide_name_for_joint (swap_LR (name e')))"
    using n1 up made by auto
  ultimately show ?case by blast
qed

lemma init_groups:
  "self_guides_grp AutoRigWizard_init = ''RigGuides_GRP''"
  "self_joints_grp AutoRigWizard_init = ''RigJoints_GRP''"
  by (simp_all add: AutoRigWizard_init_def rebuild_spec_groups)

lemma rebuild_spec_steps:
  "self_steps (rebuild_spec sc nc fc seg w) =
     filter (\<lambda>s. side s \<in> set [''C'', ''L'']) (self_spec (rebuild_spec sc nc fc seg w))"
  by (simp add: rebuild_spec_def Let_def)

lemma ensure_group_exists:
  "objExists (snd (ensure_group g sc)) n \<longleftrightarrow> objExists sc n \<or> n = g"
  by (auto simp: ensure_group_def cmds_group_em_def objExists_def)

text \<open>
  Claim C10. Every step of the spec that \<^verbatim>\<open>rebuild_spec\<close> produces has the side
  \<^verbatim>\<open>C\<close> or \<^verbatim>\<open>L\<close>; no step has the side \<^verbatim>\<open>R\<close> or a name that starts with
  \<^verbatim>\<open>R_\<close>; the step filter of the wizard keeps the whole spec. Right-side names
  arise at mirror time: \<^verbatim>\<open>mirror_left_to_right_guides\<close> always completes, every node
  it adds other than the guides group is the guide of \<^verbatim>\<open>swap_LR\<close> of a left step
  and starts with \<^verbatim>\<open>R_\<close>, and every left step whose guide is placed has its right
  guide in the scene afterwards.
\<close>

theorem no_right_side_in_spec:
  assumes w: "w = rebuild_spec sc nc fc seg AutoRigWizard_init"
  shows "(\<forall>e\<in>set (self_spec w). side e = ''C'' \<or> side e = ''L'')
    \<and> (\<forall>e\<in>set (self_spec w). side e \<noteq> ''R'' \<and> \<not> startswith (name e) ''R_'')
    \<and> self_steps w = self_spec w
    \<and> (\<exists>s'. mirror_left_to_right_guides w s = Some s'
          \<and> (\<forall>n. objExists s' n \<and> \<not> objExists s n \<longrightarrow>
                 n = self_guides_grp w
                 \<or> (\<exists>e\<in>set (self_spec w). side e = ''L''
                       \<and> n = guide_name_for_joint (swap_LR (name e))
                       \<and> startswith n ''R_''))
          \<and> (\<forall>e\<in>set (self_spec w).
                 side e = ''L'' \<and> objExists s (guide_name_for_joint (name e)) \<longrightarrow>
                 objExists s' (guide_name_for_joint (swap_LR (name e)))))"
proof -
  have spec: "self_spec w = append_fingers (build_base_spec sc nc) fc seg"
    by (simp add: w rebuild_spec_spec)
  have grp: "self_guides_grp w = ''RigGuides_GRP''"
    by (simp add: w rebuild_spec_groups init_groups)
  have sides: "\<forall>e\<in>set (self_spec w). side e = ''C'' \<or> side e = ''L''"
    unfolding spec by (auto dest: sides_generated)
  have nr: "\<forall>e\<in>set (self_spec w). side e \<noteq> ''R'' \<and> \<not> startswith (name e) ''R_''"
  proof
    fix e assume e: "e \<in> set (self_spec w)"
    then have "name e \<in> set (map name (append_fingers (build_base_spec sc nc) fc seg))"
      unfolding spec by simp
    then have "\<not> startswith (name e) ''R_''"
      by (rule not_right_generated)
    moreover have "side e \<noteq> ''R''"
      using sides e by auto
    ultimately show "side e \<noteq> ''R'' \<and> \<not> startswith (name e) ''R_''" by simp
  qed
  have steps: "self_steps w = self_spec w"
    unfolding w rebuild_spec_steps
    using sides [unfolded w] by (intro filter_True) auto
  let ?left = "filter (\<lambda>s. side s = ''L'') (self_spec w)"
  have right: "startswith (guide_name_for_joint (swap_LR (name e))) ''R_''
               \<and> guide_name_for_joint (swap_LR (name e)) \<noteq> self_guides_grp w"
    if "e \<in> set ?left" for e
  proof -
    from that have e: "e \<in> set (append_fingers (build_base_spec sc nc) fc seg)"
      and l: "side e = ''L''"
      by (simp_all add: spec)
    have "joint_form (name e)"
      using e by (intro joint_form_generated [of _ sc nc fc seg]) simp
    moreover have "startswith (name e) ''L_''"
      by (rule left_entries_generated [OF e l])
    ultimately show ?thesis
      using right_guide_name [of "name e"] by (simp add: grp)
  qed
  define s0 where "s0 = snd (ensure_group (self_guides_grp w) s)"
  have g0: "objExists s0 (self_guides_grp w)"
    by (simp add: s0_def ensure_group_exists)
  from mirror_loop_nodes [OF g0, of ?left] right obtain s1 where
    l: "mirror_loop w ?left s0 = Some s1"
    and down: "\<forall>n. objExists s1 n \<longrightarrow> objExists s0 n
                  \<or> (\<exists>e\<in>set ?left. n = guide_name_for_joint (swap_LR (name e)))"
    and made: "\<forall>e\<in>set ?left. objExists s0 (guide_name_for_joint (name e)) \<longrightarrow>
                  objExists s1 (guide_name_for_joint (swap_LR (name e)))"
    by blast
  define s' where
    "s' = cmds_inViewMessage (''Mirrored L '' @ arrow @ '' R guides across world X.'')
            (cmds_select_cl s1)"
  have m: "mirror_left_to_right_guides w s = Some s'"
    using l by (simp add: mirror_left_to_right_guides_def s0_def s'_def split_def Let_def)
  have ex: "objExists s' n = objExists s1 n" for n
    by (simp add: s'_def objExists_def cmds_inViewMessage_def cmds_select_cl_def)
  have "n = self_guides_grp w
        \<or> (\<exists>e\<in>set (self_spec w). side e = ''L''
              \<and> n = guide_name_for_joint (swap_LR (name e)) \<and> startswith n ''R_'')"
    if "objExists s' n" "\<not> objExists s n" for n
  proof -
    from that down have "objExists s0 n
        \<or> (\<exists>e\<in>set ?left. n = guide_name_for_joint (swap_LR (name e)))"
      by (simp add: ex)
    then show ?thesis
    proof
      assume "objExists s0 n"
      with that(2) show ?thesis
        by (simp add: s0_def ensure_group_exists)
    next
      assume "\<exists>e\<in>set ?left. n = guide_name_for_joint (swap_LR (name e))"
      then obtain e where "e \<in> set ?left" "n = guide_name_for_joint (swap_LR (name e))"
        by blast
      with right [of e] show ?thesis by auto
    qed
  qed
  moreover have "\<forall>e\<in>set (self_spec w).
                 side e = ''L'' \<and> objExists s (guide_name_for_joint (name e)) \<longrightarrow>
                 objExists s' (guide_name_for_joint (swap_LR (name e)))"
    using made by (simp add: ex s0_def ensure_group_exists)
  ultimately show ?thesis
    using m sides nr steps by blast
qed

lemma guide_names_eval:
  "guide_name_for_joint ''L_Hand_FK_Jnt'' = ''L_Hand_FK_Guide''"
  "guide_name_for_joint ''R_Hand_FK_Jnt'' = ''R_Hand_FK_Guide''"
  by (simp_all add: guide_name_for_joint_def py_replace_def)

lemma hand_in_spec:
  "\<lparr>key = ''L_HAND'', name = ''L_Hand_FK_Jnt'', parent = Some ''L_Arm_03_FK_Jnt'',
     side = ''L'', required = True\<rparr> \<in> set (self_spec (rebuild_spec 3 3 2 2 AutoRigWizard_init))"
  unfolding rebuild_spec_spec gen_3_3_2_2 by (simp add: build_base_spec_def Let_def)

theorem no_right_side_in_spec_witness:
  "self_steps (rebuild_spec 3 3 2 2 AutoRigWizard_init)
     = self_spec (rebuild_spec 3 3 2 2 AutoRigWizard_init)
   \<and> (\<exists>s'. mirror_left_to_right_guides (rebuild_spec 3 3 2 2 AutoRigWizard_init) one_guide
              = Some s'
          \<and> objExists s' ''R_Hand_FK_Guide'' \<and> \<not> objExists one_guide ''R_Hand_FK_Guide'')"
proof -
  let ?w = "rebuild_spec 3 3 2 2 AutoRigWizard_init"
  have g: "objExists one_guide (guide_name_for_joint ''L_Hand_FK_Jnt'')"
    by (simp add: guide_names_eval one_guide_def objExists_def)
  have n: "\<not> objExists one_guide ''R_Hand_FK_Guide''"
    by (simp add: one_guide_def objExists_def)
  have sw: "guide_name_for_joint (swap_LR ''L_Hand_FK_Jnt'') = ''R_Hand_FK_Guide''"
    by (simp add: swap_LR_def startswith_def guide_names_eval)
  from no_right_side_in_spec [OF refl, of 3 3 2 2 one_guide]
  obtain s' where steps: "self_steps ?w = self_spec ?w"
    and m: "mirror_left_to_right_guides ?w one_guide = Some s'"
    and made: "\<forall>e\<in>set (self_spec ?w).
                 side e = ''L'' \<and> objExists one_guide (guide_name_for_joint (name e)) \<longrightarrow>
                 objExists s' (guide_name_for_joint (swap_LR (name e)))"
    by blast
  from made [rule_format, OF hand_in_spec] g sw have "objExists s' ''R_Hand_FK_Guide''"
    by simp
  with steps m n show ?thesis by blast
qed

section \<open>Building the joints\<close>

lemma build_step_skip:
  "\<not> buildable sc e \<Longrightarrow>
   build_step e (created, sc) = Some (created, sc\<lparr>warnings := warnings sc @ build_warning sc e\<rparr>)"
  by (simp add: build_step_def buildable_def build_warning_def cmds_warning_def Let_def)

lemma build_step_create:
  assumes b: "buildable sc e" and np: "parent e \<noteq> Some (name e)"
  shows "\<exists>sc1. build_step e (created, sc) = Some (created @ [name e], sc1)
           \<and> nodes sc1 = (nodes sc)(name e \<mapsto>
                \<lparr>is_joint = True,
                 node_parent =
                   (case parent e of
                      None \<Rightarrow> None
                    | Some p \<Rightarrow> if p \<noteq> [] \<and> objExists sc p then Some p else None),
                 world = identity_matrix
                   \<lparr>translation := the (xform_q_ws_t (guide_name_for_joint (name e)) sc)\<rparr>\<rparr>)
           \<and> warnings sc1 = warnings sc \<and> attrs sc1 = attrs sc \<and> messages sc1 = messages sc"
proof -
  let ?g = "guide_name_for_joint (name e)"
  from b obtain gn where g: "nodes sc ?g = Some gn" and j: "nodes sc (name e) = None"
    by (auto simp: buildable_def objExists_def)
  have q: "xform_q_ws_t ?g sc = Some (translation (world gn))"
    by (simp add: xform_q_ws_t_def g)
  show ?thesis
  proof (cases "parent e")
    case None
    then show ?thesis
      using g j q
      by (simp add: build_step_def objExists_def Let_def cmds_joint_def cmds_select_cl_def)
  next
    case (Some p)
    with np have pn: "p \<noteq> name e" by simp
    show ?thesis
    proof (cases "p \<noteq> [] \<and> objExists sc p")
      case True
      then show ?thesis
        using g j q Some pn
        by (auto simp: build_step_def objExists_def Let_def cmds_joint_def cmds_select_cl_def
            cmds_parent_def)
    next
      case False
      then show ?thesis
        using g j q Some pn
        by (auto simp: build_step_def objExists_def Let_def cmds_joint_def cmds_select_cl_def
            cmds_parent_def)
    qed
  qed
qed

lemma buildable_cong:
  "nodes sc1 (guide_name_for_joint (name e)) = nodes sc (guide_name_for_joint (name e))
   \<Longrightarrow> nodes sc1 (name e) = nodes sc (name e) \<Longrightarrow> buildable sc1 e = buildable sc e"
  by (simp add: buildable_def objExists_def)

lemma build_warning_cong:
  "nodes sc1 (guide_name_for_joint (name e)) = nodes sc (guide_name_for_joint (name e))
   \<Longrightarrow> nodes sc1 (name e) = nodes sc (name e) \<Longrightarrow> build_warning sc1 e = build_warning sc e"
  by (simp add: build_warning_def objExists_def)

lemma joint_node_cong:
  "nodes sc1 (guide_name_for_joint (name e)) = nodes sc (guide_name_for_joint (name e))
   \<Longrightarrow> joint_node sc1 sc' e = joint_node sc sc' e"
  by (simp add: joint_node_def xform_q_ws_t_def)

lemma build_loop_result:
  assumes "distinct (map name es)" and "no_forward es"
    and "\<forall>e\<in>set es. guide_name_for_joint (name e) \<notin> set (map name es)"
  shows "\<exists>sc'. build_loop es (created, sc)
                = Some (created @ map name (filter (buildable sc) es), sc')
           \<and> (\<forall>n. n \<notin> set (map name (filter (buildable sc) es)) \<longrightarrow> nodes sc' n = nodes sc n)
           \<and> (\<forall>e\<in>set (filter (buildable sc) es). nodes sc' (name e) = Some (joint_node sc sc' e))
           \<and> warnings sc' = warnings sc @ concat (map (build_warning sc) es)
           \<and> attrs sc' = attrs sc \<and> messages sc' = messages sc"
  using assms
proof (induction es arbitrary: created sc)
  case Nil
  then show ?case by simp
next
  case (Cons e es)
  let ?G = guide_name_for_joint
  have d: "distinct (map name es)" and nf: "no_forward es"
    and gs: "\<forall>e'\<in>set es. ?G (name e') \<notin> set (map name es)"
    using Cons.prems by auto
  have ne: "name e \<notin> set (map name es)"
    using Cons.prems(1) by simp
  have ge: "\<forall>e'\<in>set (e # es). ?G (name e') \<noteq> name e"
    using Cons.prems(3) by auto
  have np: "parent e \<noteq> Some (name e)"
    using Cons.prems(2) by (auto split: option.splits)
  have pl: "p \<notin> set (map name es)" if "parent e = Some p" for p
    using Cons.prems(2) that by simp
  \<comment> \<open>the scene after the step for \<open>e\<close>\<close>
  obtain cr1 sc1 where step: "build_step e (created, sc) = Some (cr1, sc1)"
    and cr1: "cr1 = created @ map name (filter (buildable sc) [e])"
    and n1: "\<forall>n. n \<noteq> name e \<longrightarrow> nodes sc1 n = nodes sc n"
    and e1: "buildable sc e \<longrightarrow> nodes sc1 (name e) = Some (joint_node sc sc e)"
    and e1': "\<not> buildable sc e \<longrightarrow> nodes sc1 = nodes sc"
    and w1: "warnings sc1 = warnings sc @ build_warning sc e"
    and a1: "attrs sc1 = attrs sc" and m1: "messages sc1 = messages sc"
  proof (cases "buildable sc e")
    case True
    from build_step_create [OF True np, of created] obtain s1 where
      "build_step e (created, sc) = Some (created @ [name e], s1)"
      and "nodes s1 = (nodes sc)(name e \<mapsto> joint_node sc sc e)"
      and "warnings s1 = warnings sc" "attrs s1 = attrs sc" "messages s1 = messages sc"
      unfolding joint_node_def by blast
    moreover have "build_warning sc e = []"
      using True by (simp add: build_warning_def buildable_def)
    ultimately show ?thesis
      using True by (intro that [of "created @ [name e]" s1]) simp_all
  next
    case False
    show ?thesis
      using False build_step_skip [OF False, of created]
      by (intro that [of created "sc\<lparr>warnings := warnings sc @ build_warning sc e\<rparr>"]) simp_all
  qed
  have same: "buildable sc1 e' = buildable sc e' \<and> build_warning sc1 e' = build_warning sc e'
              \<and> joint_node sc1 s e' = joint_node sc s e'" if "e' \<in> set es" for e' s
  proof -
    have "?G (name e') \<noteq> name e" using ge that by simp
    moreover have "name e' \<in> set (map name es)" using that by simp
    then have "name e' \<noteq> name e" using ne by metis
    ultimately have g': "nodes sc1 (?G (name e')) = nodes sc (?G (name e'))"
      and n': "nodes sc1 (name e') = nodes sc (name e')"
      using n1 by simp_all
    show ?thesis
      using buildable_cong [OF g' n'] build_warning_cong [OF g' n']
        joint_node_cong [OF g', of s]
      by simp
  qed
  have f: "filter (buildable sc1) es = filter (buildable sc) es"
    using same by (intro filter_cong) simp_all
  have wm: "map (build_warning sc1) es = map (build_warning sc) es"
    using same by simp
  from Cons.IH [OF d nf gs, of cr1 sc1] obtain sc' where
    loop: "build_loop es (cr1, sc1) = Some (cr1 @ map name (filter (buildable sc1) es), sc')"
    and keep: "\<forall>n. n \<notin> set (map name (filter (buildable sc1) es)) \<longrightarrow> nodes sc' n = nodes sc1 n"
    and made: "\<forall>e'\<in>set (filter (buildable sc1) es). nodes sc' (name e') = Some (joint_node sc1 sc' e')"
    and w': "warnings sc' = warnings sc1 @ concat (map (build_warning sc1) es)"
    and a': "attrs sc' = attrs sc1" and m': "messages sc' = messages sc1"
    by blast
  have r1: "build_loop (e # es) (created, sc)
              = Some (created @ map name (filter (buildable sc) (e # es)), sc')"
    using step loop by (simp add: cr1 f)
  have r2: "\<forall>n. n \<notin> set (map name (filter (buildable sc) (e # es))) \<longrightarrow> nodes sc' n = nodes sc n"
  proof (intro allI impI)
    fix n assume n: "n \<notin> set (map name (filter (buildable sc) (e # es)))"
    then have "n \<notin> set (map name (filter (buildable sc1) es))"
      by (auto simp: f)
    with keep have k: "nodes sc' n = nodes sc1 n" by simp
    show "nodes sc' n = nodes sc n"
    proof (cases "buildable sc e")
      case True
      with n have "n \<noteq> name e" by auto
      with n1 k show ?thesis by simp
    next
      case False
      with e1' k show ?thesis by simp
    qed
  qed
  have ex': "objExists sc' p = objExists sc p" if "parent e = Some p" for p
  proof -
    have "p \<notin> set (map name (filter (buildable sc1) es))"
      using pl [OF that] by auto
    with keep have "nodes sc' p = nodes sc1 p" by simp
    moreover have "p \<noteq> name e" using np that by auto
    ultimately show ?thesis using n1 by (simp add: objExists_def)
  qed
  have jn: "joint_node sc sc' e = joint_node sc sc e"
    using ex' by (auto simp: joint_node_def split: option.splits)
  have r3: "\<forall>e'\<in>set (filter (buildable sc) (e # es)). nodes sc' (name e') = Some (joint_node sc sc' e')"
  proof
    fix e' assume e': "e' \<in> set (filter (buildable sc) (e # es))"
    show "nodes sc' (name e') = Some (joint_node sc sc' e')"
    proof (cases "e' \<in> set es")
      case True
      from e' have "buildable sc e'"
        by (auto split: if_splits)
      with True have "e' \<in> set (filter (buildable sc1) es)"
        by (simp add: f)
      with made have "nodes sc' (name e') = Some (joint_node sc1 sc' e')" by blast
      with same [OF True] show ?thesis by simp
    next
      case False
      with e' have ee: "e' = e" and b: "buildable sc e"
        by (auto split: if_splits)
      have "name e \<notin> set (map name (filter (buildable sc1) es))"
        using ne by auto
      with keep have "nodes sc' (name e) = nodes sc1 (name e)" by simp
      with e1 b jn show ?thesis by (simp add: ee)
    qed
  qed
  have r4: "warnings sc' = warnings sc @ concat (map (build_warning sc) (e # es))"
    by (simp add: w' w1 wm)
  from r1 r2 r3 r4 a' a1 m' m1 show ?case
    by (intro exI [of _ sc']) simp
qed

lemma adopt_adopt: "adopt g (adopt g nd) = adopt g nd"
  by (simp add: adopt_def)

lemma group_loop_result:
  assumes "objExists sc (self_joints_grp w)" and "self_joints_grp w \<notin> set js"
    and "\<forall>j\<in>set js. objExists sc j"
  shows "\<exists>sc'. group_loop w js sc = Some sc'
           \<and> (\<forall>n. nodes sc' n =
                  (if n \<in> set js then map_option (adopt (self_joints_grp w)) (nodes sc n)
                   else nodes sc n))
           \<and> warnings sc' = warnings sc \<and> attrs sc' = attrs sc \<and> messages sc' = messages sc"
  using assms
proof (induction js arbitrary: sc)
  case Nil
  then show ?case by simp
next
  case (Cons j js)
  let ?g = "self_joints_grp w"
  from Cons.prems obtain nd where nd: "nodes sc j = Some nd"
    by (auto simp: objExists_def)
  have jg: "j \<noteq> ?g" using Cons.prems(2) by auto
  define sc1 where "sc1 = (if node_parent nd = None
      then sc\<lparr>nodes := (nodes sc)(j \<mapsto> nd\<lparr>node_parent := Some ?g\<rparr>), selection := [j]\<rparr>
      else sc)"
  have n1: "nodes sc1 = (nodes sc)(j \<mapsto> adopt ?g nd)"
    using nd by (auto simp: sc1_def adopt_def)
  have o1: "warnings sc1 = warnings sc" "attrs sc1 = attrs sc" "messages sc1 = messages sc"
    by (simp_all add: sc1_def)
  have step: "group_loop w (j # js) sc = group_loop w js sc1"
    using nd jg Cons.prems(1)
    by (cases "node_parent nd") (simp_all add: listRelatives_p_def cmds_parent_def sc1_def)
  have ex1: "objExists sc1 n = objExists sc n" for n
    using nd by (simp add: objExists_def n1)
  from Cons.IH [of sc1] Cons.prems obtain sc' where
    l: "group_loop w js sc1 = Some sc'"
    and n': "\<forall>n. nodes sc' n =
                  (if n \<in> set js then map_option (adopt ?g) (nodes sc1 n) else nodes sc1 n)"
    and o': "warnings sc' = warnings sc1" "attrs sc' = attrs sc1" "messages sc' = messages sc1"
    by (auto simp: ex1)
  have "nodes sc' n =
          (if n \<in> set (j # js) then map_option (adopt ?g) (nodes sc n) else nodes sc n)" for n
    using n' [rule_format, of n] nd by (simp add: n1 adopt_adopt)
  with step l o' o1 show ?case by simp
qed

lemma no_forward_from_earlier:
  "parents_earlier seen es \<Longrightarrow> distinct (map name es)
   \<Longrightarrow> set seen \<inter> set (map name es) = {} \<Longrightarrow> no_forward es"
proof (induction es arbitrary: seen)
  case Nil
  then show ?case by simp
next
  case (Cons e es)
  have "no_forward es"
  proof (rule Cons.IH)
    show "parents_earlier (name e # seen) es" using Cons.prems(1) by simp
    show "distinct (map name es)" using Cons.prems(2) by simp
    show "set (name e # seen) \<inter> set (map name es) = {}"
      using Cons.prems(2,3) by auto
  qed
  moreover have "p \<notin> set (map name (e # es))" if "parent e = Some p" for p
  proof -
    from Cons.prems(1) that have "p \<in> set seen" by simp
    with Cons.prems(3) show ?thesis by blast
  qed
  ultimately show ?case
    by (auto split: option.splits)
qed

lemma guide_name_form:
  assumes "joint_form n"
  shows "\<exists>x. guide_name_for_joint n = x @ ''_Guide''"
  using joint_form_guide(2) [OF assms] by blast

lemma guide_not_joint:
  assumes "joint_form n" and "joint_form n'"
  shows "guide_name_for_joint n \<noteq> n'"
proof
  assume eq: "guide_name_for_joint n = n'"
  from guide_name_form [OF assms(1)] obtain x where "guide_name_for_joint n = x @ ''_Guide''"
    by blast
  then have "last (guide_name_for_joint n) = CHR ''e''" by simp
  moreover from joint_formD [OF assms(2)] obtain p where "n' = p @ ''_FK_Jnt''" by blast
  then have "last n' = CHR ''t''" by simp
  ultimately show False using eq by simp
qed

lemma guide_not_group:
  assumes "joint_form n"
  shows "guide_name_for_joint n \<noteq> ''RigJoints_GRP''"
proof
  assume eq: "guide_name_for_joint n = ''RigJoints_GRP''"
  from guide_name_form [OF assms(1)] obtain x where "guide_name_for_joint n = x @ ''_Guide''"
    by blast
  then have "last (guide_name_for_joint n) = CHR ''e''" by simp
  then show False using eq by simp
qed

lemma joint_not_group: "joint_form n \<Longrightarrow> n \<noteq> ''RigJoints_GRP''"
  by (auto simp: joint_form_def endswith_def)

lemma joint_form_guide_inj:
  assumes a: "joint_form n" and b: "joint_form n'"
    and eq: "guide_name_for_joint n = guide_name_for_joint n'"
  shows "n = n'"
proof -
  note ga = joint_form_guide [OF a] and gb = joint_form_guide [OF b]
  let ?k = "length ''_Jnt''"
  from eq ga(2) gb(2) have t: "take (length n - ?k) n = take (length n' - ?k) n'"
    by simp
  from ga(1) have "n = take (length n - ?k) n @ ''_Jnt''"
    using append_take_drop_id [of "length n - ?k" n] by (simp add: endswith_def)
  moreover from gb(1) have "n' = take (length n' - ?k) n' @ ''_Jnt''"
    using append_take_drop_id [of "length n' - ?k" n'] by (simp add: endswith_def)
  ultimately show ?thesis using t by metis
qed

lemma parent_is_name:
  assumes pe: "parents_earlier [] es" and e: "e \<in> set es" and p: "parent e = Some p"
  shows "p \<in> set (map name es)"
proof -
  from e obtain i where i: "i < length es" and ei: "es ! i = e"
    by (auto simp: in_set_conv_nth)
  from parents_earlier_nth [OF pe i, of p] p ei obtain j where "j < i" "name (es ! j) = p"
    by auto
  with i have "es ! j \<in> set es" and "name (es ! j) = p"
    by simp_all
  then show ?thesis
    by (auto simp: image_iff)
qed

lemma build_fk_joints_result:
  assumes w: "self_spec w = append_fingers (build_base_spec sc nc) fc seg"
    and grp: "self_joints_grp w = ''RigJoints_GRP''"
  shows "\<exists>s'. build_fk_joints w s = Some s'
           \<and> selection s' = map name (filter (buildable s) (self_spec w))
           \<and> (\<forall>n. objExists s' n \<longleftrightarrow>
                  objExists s n \<or> n = self_joints_grp w
                  \<or> n \<in> set (map name (filter (buildable s) (self_spec w))))
           \<and> (\<forall>e\<in>set (filter (buildable s) (self_spec w)).
                  nodes s' (name e) =
                    Some \<lparr>is_joint = True,
                          node_parent =
                            Some (case parent e of
                                    None \<Rightarrow> self_joints_grp w
                                  | Some p \<Rightarrow> if objExists s' p then p else self_joints_grp w),
                          world = identity_matrix
                            \<lparr>translation :=
                               the (xform_q_ws_t (guide_name_for_joint (name e)) s)\<rparr>\<rparr>)
           \<and> (\<forall>n. objExists s n \<longrightarrow> nodes s' n = nodes s n)
           \<and> warnings s' = warnings s @ concat (map (build_warning s) (self_spec w))"
proof -
  let ?G = guide_name_for_joint
  let ?g = "self_joints_grp w"
  let ?spec = "self_spec w"
  have jf: "joint_form (name e)" if "e \<in> set ?spec" for e
    using that by (intro joint_form_generated [of _ sc nc fc seg]) (simp add: w)
  have pe: "parents_earlier [] ?spec" and d: "distinct (map name ?spec)"
    unfolding w by (rule parents_earlier_all, rule distinct_names_fingers)
  have nf: "no_forward ?spec"
    by (rule no_forward_from_earlier [OF pe d]) simp
  have gs: "\<forall>e\<in>set ?spec. ?G (name e) \<notin> set (map name ?spec)"
    using guide_not_joint jf by auto
  \<comment> \<open>the joints group\<close>
  define s0 where "s0 = snd (ensure_group ?g s)"
  have e0: "ensure_group ?g s = (?g, s0)"
    by (simp add: s0_def ensure_group_def cmds_group_em_def)
  have n0: "nodes s0 n = nodes s n" if "n \<noteq> ?g" for n
    using that by (simp add: s0_def ensure_group_def cmds_group_em_def)
  have n0': "nodes s0 n = nodes s n" if "objExists s n" for n
    using that by (auto simp: s0_def ensure_group_def cmds_group_em_def)
  have g0: "objExists s0 ?g"
    by (simp add: s0_def ensure_group_exists)
  have o0: "warnings s0 = warnings s"
    by (simp add: s0_def ensure_group_def cmds_group_em_def)
  have same: "buildable s0 e = buildable s e \<and> build_warning s0 e = build_warning s e
              \<and> joint_node s0 x e = joint_node s x e" if "e \<in> set ?spec" for e x
  proof -
    have "?G (name e) \<noteq> ?g" "name e \<noteq> ?g"
      using guide_not_group [OF jf [OF that]] joint_not_group [OF jf [OF that]]
      by (simp_all add: grp)
    then have g': "nodes s0 (?G (name e)) = nodes s (?G (name e))"
      and n': "nodes s0 (name e) = nodes s (name e)"
      by (simp_all add: n0)
    show ?thesis
      using buildable_cong [OF g' n'] build_warning_cong [OF g' n']
        joint_node_cong [OF g', of x]
      by simp
  qed
  have f: "filter (buildable s0) ?spec = filter (buildable s) ?spec"
    using same by (intro filter_cong) simp_all
  have wm: "map (build_warning s0) ?spec = map (build_warning s) ?spec"
    using same by simp
  let ?made = "filter (buildable s) ?spec"
  let ?created = "map name ?made"
  \<comment> \<open>the first loop\<close>
  from build_loop_result [OF d nf gs, of "[]" s0] obtain s2 where
    loop: "build_loop ?spec ([], s0) = Some (?created, s2)"
    and keep: "\<forall>n. n \<notin> set ?created \<longrightarrow> nodes s2 n = nodes s0 n"
    and made: "\<forall>e\<in>set ?made. nodes s2 (name e) = Some (joint_node s0 s2 e)"
    and w2: "warnings s2 = warnings s @ concat (map (build_warning s) ?spec)"
    by (auto simp: f wm o0)
  have gc: "?g \<notin> set ?created"
  proof
    assume "?g \<in> set ?created"
    then obtain e where "e \<in> set ?spec" and "name e = ?g" by auto
    with jf [of e] joint_not_group [of "name e"] show False
      by (simp add: grp)
  qed
  have g2: "objExists s2 ?g"
    using keep gc g0 by (simp add: objExists_def)
  have c2: "\<forall>j\<in>set ?created. objExists s2 j"
    using made by (auto simp: objExists_def)
  \<comment> \<open>the second loop\<close>
  from group_loop_result [OF g2 gc c2] obtain s3 where
    gl: "group_loop w ?created s2 = Some s3"
    and n3: "\<forall>n. nodes s3 n =
               (if n \<in> set ?created then map_option (adopt ?g) (nodes s2 n) else nodes s2 n)"
    and w3: "warnings s3 = warnings s2"
    by blast
  have ex3: "objExists s3 n \<longleftrightarrow> objExists s n \<or> n = ?g \<or> n \<in> set ?created" for n
  proof (cases "n \<in> set ?created")
    case True
    then show ?thesis using c2 n3 by (auto simp: objExists_def)
  next
    case False
    then have "nodes s3 n = nodes s0 n" using n3 keep by simp
    then have "objExists s3 n = objExists s0 n"
      by (simp add: objExists_def)
    then show ?thesis
      using False by (simp add: s0_def ensure_group_exists)
  qed
  \<comment> \<open>the selection and the message\<close>
  define s4 where "s4 = (if ?created \<noteq> [] then s3\<lparr>selection := ?created\<rparr> else cmds_select_cl s3)"
  have sel: "(if ?created \<noteq> [] then cmds_select_r ?created s3 else Some (cmds_select_cl s3))
               = Some s4"
    using ex3 by (auto simp: s4_def cmds_select_r_def list_all_iff)
  have n4: "nodes s4 = nodes s3" and w4: "warnings s4 = warnings s3"
    and sel4: "selection s4 = ?created"
    by (auto simp: s4_def cmds_select_cl_def)
  define s' where
    "s' = cmds_inViewMessage
            (''Built '' @ py_str (int (length ?created)) @ '' FK joints from guides.'') s4"
  have run: "build_fk_joints w s = Some s'"
  proof (cases "?made = []")
    case True
    with gl have "s3 = s2" by simp
    with True loop show ?thesis
      by (simp add: build_fk_joints_def e0 s'_def s4_def)
  next
    case False
    with sel have "cmds_select_r ?created s3 = Some s4" by simp
    with False show ?thesis
      by (simp add: build_fk_joints_def e0 loop gl s'_def)
  qed
  have n': "nodes s' = nodes s3" and w': "warnings s' = warnings s3"
    and sel': "selection s' = ?created"
    by (simp_all add: s'_def cmds_inViewMessage_def n4 w4 sel4)
  have ex': "objExists s' n \<longleftrightarrow> objExists s n \<or> n = ?g \<or> n \<in> set ?created" for n
    using ex3 [of n] by (simp add: objExists_def n')
  have old: "nodes s' n = nodes s n" if "objExists s n" for n
  proof -
    have "n \<notin> set ?created"
      using that by (auto simp: buildable_def)
    then show ?thesis
      using n3 keep n0' [OF that] by (simp add: n')
  qed
  have new: "nodes s' (name e) =
               Some \<lparr>is_joint = True,
                     node_parent =
                       Some (case parent e of
                               None \<Rightarrow> ?g
                             | Some p \<Rightarrow> if objExists s' p then p else ?g),
                     world = identity_matrix
                       \<lparr>translation := the (xform_q_ws_t (?G (name e)) s)\<rparr>\<rparr>"
    if e: "e \<in> set ?made" for e
  proof -
    from e have es: "e \<in> set ?spec" by simp
    have "nodes s2 (name e) = Some (joint_node s0 s2 e)"
      using made e by blast
    then have a: "nodes s' (name e) = Some (adopt ?g (joint_node s s2 e))"
      using n3 e same [OF es] by (auto simp: n')
    have pp: "p \<noteq> [] \<and> objExists s2 p = objExists s' p" if "parent e = Some p" for p
    proof -
      from parent_is_name [OF pe es that] obtain e' where "e' \<in> set ?spec" "name e' = p"
        by auto
      with jf [of e'] have "joint_form p" by simp
      then have "p \<noteq> []"
        by (auto simp: joint_form_def endswith_def)
      moreover have "objExists s2 p = objExists s3 p"
        using n3 by (auto simp: objExists_def)
      ultimately show ?thesis
        by (simp add: objExists_def n')
    qed
    show ?thesis
      unfolding a
      by (cases "parent e") (auto simp: adopt_def joint_node_def pp)
  qed
  from run sel' ex' new old w' w3 w2 show ?thesis
    by (intro exI [of _ s']) simp
qed

lemma init_spec: "self_spec AutoRigWizard_init = append_fingers (build_base_spec 3 3) 5 3"
  by (simp add: AutoRigWizard_init_def rebuild_spec_spec)

lemma cog_in_spec: "cog_entry \<in> set (append_fingers (build_base_spec sc nc) fc seg)"
  "pelvis_entry \<in> set (append_fingers (build_base_spec sc nc) fc seg)"
  by (simp_all add: append_fingers_eq build_base_spec_eq cog_entry_def pelvis_entry_def)

lemma guide_cog: "guide_name_for_joint ''COG_FK_Jnt'' = ''COG_FK_Guide''"
  "guide_name_for_joint ''Pelvis_FK_Jnt'' = ''Pelvis_FK_Guide''"
  by (simp_all add: guide_name_for_joint_def py_replace_def)

text \<open>
  Claim C3, as amended. For every generated spec and every scene,
  \<^verbatim>\<open>build_fk_joints\<close> completes and, walking the spec in its order, creates exactly one
  joint per step whose guide exists and whose joint name is not yet a node of the scene
  (the created joints, in spec order, are the final selection, and the nodes of the
  scene afterwards are the old ones, the joints group and these joints). Each created
  joint sits at its guide and is the child of the step's named parent when that node
  exists, otherwise of the joints group; nodes that existed before are unchanged. A step
  whose guide is absent is skipped, with the warning \<^verbatim>\<open>Missing guide for required joint\<close>
  exactly when the step is required; a step whose guide exists but whose joint already
  exists is skipped with the warning \<^verbatim>\<open>Joint already exists, skipping\<close>.
\<close>

theorem build_fk_joints_creates_missing_joints:
  assumes "w = rebuild_spec sc nc fc seg AutoRigWizard_init"
  shows "\<exists>s'. build_fk_joints w s = Some s'
           \<and> selection s' = map name (filter (buildable s) (self_spec w))
           \<and> (\<forall>n. objExists s' n \<longleftrightarrow>
                  objExists s n \<or> n = self_joints_grp w
                  \<or> n \<in> set (map name (filter (buildable s) (self_spec w))))
           \<and> (\<forall>e\<in>set (filter (buildable s) (self_spec w)).
                  nodes s' (name e) =
                    Some \<lparr>is_joint = True,
                          node_parent =
                            Some (case parent e of
                                    None \<Rightarrow> self_joints_grp w
                                  | Some p \<Rightarrow> if objExists s' p then p else self_joints_grp w),
                          world = identity_matrix
                            \<lparr>translation :=
                               the (xform_q_ws_t (guide_name_for_joint (name e)) s)\<rparr>\<rparr>)
           \<and> (\<forall>n. objExists s n \<longrightarrow> nodes s' n = nodes s n)
           \<and> warnings s' = warnings s @ concat (map (build_warning s) (self_spec w))"
proof (rule build_fk_joints_result)
  show "self_spec w = append_fingers (build_base_spec sc nc) fc seg"
    by (simp add: assms rebuild_spec_spec)
  show "self_joints_grp w = ''RigJoints_GRP''"
    by (simp add: assms rebuild_spec_groups init_groups)
qed

theorem build_fk_joints_creates_missing_joints_witness:
  "\<exists>s'. build_fk_joints (rebuild_spec 3 3 2 2 AutoRigWizard_init) cog_guide = Some s'
     \<and> nodes s' ''COG_FK_Jnt'' =
         Some \<lparr>is_joint = True, node_parent = Some ''RigJoints_GRP'',
               world = identity_matrix\<lparr>translation := (fzero, fone, fzero)\<rparr>\<rparr>
     \<and> nodes s' ''COG_FK_Guide'' = nodes cog_guide ''COG_FK_Guide''
     \<and> ''Missing guide for required joint: Pelvis_FK_Jnt'' \<in> set (warnings s')"
proof -
  let ?w = "rebuild_spec 3 3 2 2 AutoRigWizard_init"
  have b: "buildable cog_guide cog_entry"
    by (simp add: buildable_def cog_entry_def guide_cog objExists_def cog_guide_def)
  have m: "cog_entry \<in> set (filter (buildable cog_guide) (self_spec ?w))"
    using b cog_in_spec(1) [of 3 3 2 2] by (simp add: rebuild_spec_spec)
  have g: "self_joints_grp ?w = ''RigJoints_GRP''"
    by (simp add: rebuild_spec_groups init_groups)
  have t: "the (xform_q_ws_t (guide_name_for_joint ''COG_FK_Jnt'') cog_guide) = (fzero, fone, fzero)"
    by (simp add: guide_cog xform_q_ws_t_def cog_guide_def)
  have o: "objExists cog_guide ''COG_FK_Guide''"
    by (simp add: objExists_def cog_guide_def)
  have pw: "build_warning cog_guide pelvis_entry = [''Missing guide for required joint: Pelvis_FK_Jnt'']"
    by (simp add: build_warning_def pelvis_entry_def guide_cog objExists_def cog_guide_def)
  have pm: "pelvis_entry \<in> set (self_spec ?w)"
    using cog_in_spec(2) [of 3 3 2 2] by (simp add: rebuild_spec_spec)
  from build_fk_joints_creates_missing_joints [OF refl, of 3 3 2 2 cog_guide]
  obtain s' where run: "build_fk_joints ?w cog_guide = Some s'"
    and new: "\<forall>e\<in>set (filter (buildable cog_guide) (self_spec ?w)).
                  nodes s' (name e) =
                    Some \<lparr>is_joint = True,
                          node_parent =
                            Some (case parent e of
                                    None \<Rightarrow> self_joints_grp ?w
                                  | Some p \<Rightarrow> if objExists s' p then p else self_joints_grp ?w),
                          world = identity_matrix
                            \<lparr>translation :=
                               the (xform_q_ws_t (guide_name_for_joint (name e)) cog_guide)\<rparr>\<rparr>"
    and old: "\<forall>n. objExists cog_guide n \<longrightarrow> nodes s' n = nodes cog_guide n"
    and wn: "warnings s' = warnings cog_guide @ concat (map (build_warning cog_guide) (self_spec ?w))"
    by blast
  from new [rule_format, OF m] g t
  have "nodes s' ''COG_FK_Jnt'' =
         Some \<lparr>is_joint = True, node_parent = Some ''RigJoints_GRP'',
               world = identity_matrix\<lparr>translation := (fzero, fone, fzero)\<rparr>\<rparr>"
    by (simp add: cog_entry_def)
  moreover from old o have "nodes s' ''COG_FK_Guide'' = nodes cog_guide ''COG_FK_Guide''"
    by blast
  moreover have "''Missing guide for required joint: Pelvis_FK_Jnt'' \<in> set (warnings s')"
    unfolding wn using pm pw by (auto intro!: bexI [of _ pelvis_entry])
  ultimately show ?thesis
    using run by blast
qed

text \<open>
  The claim as stated fails on a scene in which the guide of \<^verbatim>\<open>COG_FK_Jnt\<close> is placed
  and a node named \<^verbatim>\<open>COG_FK_Jnt\<close> already exists: the guide of the step exists, yet no
  joint is created for it. Nothing is selected, the scene gains no node but the joints
  group, the existing node (which is not a joint) stays as it was, and the step is
  reported as already existing.
\<close>

theorem build_fk_joints_existing_joint_counterexample:
  "\<exists>s'. build_fk_joints AutoRigWizard_init cog_built = Some s'
     \<and> cog_entry \<in> set (self_spec AutoRigWizard_init)
     \<and> objExists cog_built (guide_name_for_joint (name cog_entry))
     \<and> selection s' = []
     \<and> (\<forall>n. objExists s' n \<longleftrightarrow> objExists cog_built n \<or> n = ''RigJoints_GRP'')
     \<and> nodes s' ''COG_FK_Jnt'' =
         Some \<lparr>is_joint = False, node_parent = None, world = identity_matrix\<rparr>
     \<and> ''Joint already exists, skipping: COG_FK_Jnt'' \<in> set (warnings s')"
proof -
  let ?w = AutoRigWizard_init
  have g: "self_joints_grp ?w = ''RigJoints_GRP''"
    by (rule init_groups)
  have mem: "cog_entry \<in> set (self_spec ?w)"
    using cog_in_spec(1) [of 3 3 5 3] by (simp add: init_spec)
  have og: "objExists cog_built (guide_name_for_joint (name cog_entry))"
    by (simp add: cog_entry_def guide_cog objExists_def cog_built_def)
  have oj: "objExists cog_built ''COG_FK_Jnt''"
    by (simp add: objExists_def cog_built_def)
  have jc: "joint_form ''COG_FK_Jnt''"
    by (simp add: joint_form_def endswith_def)
  have none: "\<not> buildable cog_built e" if e: "e \<in> set (self_spec ?w)" for e
  proof
    assume b: "buildable cog_built e"
    have jf: "joint_form (name e)"
      using e by (intro joint_form_generated [of _ 3 3 5 3]) (simp add: init_spec)
    from b have "guide_name_for_joint (name e) = ''COG_FK_Guide''
                 \<or> guide_name_for_joint (name e) = ''COG_FK_Jnt''"
      by (auto simp: buildable_def objExists_def cog_built_def split: if_splits)
    with guide_not_joint [OF jf jc]
    have "guide_name_for_joint (name e) = guide_name_for_joint ''COG_FK_Jnt''"
      by (simp add: guide_cog)
    then have "name e = ''COG_FK_Jnt''"
      by (rule joint_form_guide_inj [OF jf jc])
    with b oj show False
      by (simp add: buildable_def)
  qed
  then have f: "filter (buildable cog_built) (self_spec ?w) = []"
    by (simp add: filter_empty_conv)
  have cw: "build_warning cog_built cog_entry = [''Joint already exists, skipping: COG_FK_Jnt'']"
    using og oj by (simp add: build_warning_def cog_entry_def)
  from build_fk_joints_result [OF init_spec g, of cog_built]
  obtain s' where run: "build_fk_joints ?w cog_built = Some s'"
    and sel: "selection s' = map name (filter (buildable cog_built) (self_spec ?w))"
    and ex: "\<forall>n. objExists s' n \<longleftrightarrow>
                  objExists cog_built n \<or> n = self_joints_grp ?w
                  \<or> n \<in> set (map name (filter (buildable cog_built) (self_spec ?w)))"
    and old: "\<forall>n. objExists cog_built n \<longrightarrow> nodes s' n = nodes cog_built n"
    and wn: "warnings s' = warnings cog_built @ concat (map (build_warning cog_built) (self_spec ?w))"
    by blast
  have "selection s' = []"
    using sel f by simp
  moreover have "\<forall>n. objExists s' n \<longleftrightarrow> objExists cog_built n \<or> n = ''RigJoints_GRP''"
    using ex by (simp add: f g)
  moreover have "nodes s' ''COG_FK_Jnt'' =
         Some \<lparr>is_joint = False, node_parent = None, world = identity_matrix\<rparr>"
    using old [rule_format, OF oj] by (simp add: cog_built_def)
  moreover have "''Joint already exists, skipping: COG_FK_Jnt'' \<in> set (warnings s')"
    unfolding wn using mem cw by (auto intro!: bexI [of _ cog_entry])
  ultimately show ?thesis
    using run mem og by blast
qed

section \<open>The constraint chaining script\<close>

lemma fk_step_B:
  "fk_step reconnect_raises ''A_Ctrl'' ''B_Ctrl'' two_controls =
     (if reconnect_raises then Some RuntimeError else None, two_controls_linked)"
  by (simp add: fk_step_def fk_listRelatives_parent_def two_controls_def two_controls_linked_def
      cmds_parentConstraint_def cmds_scaleConstraint_def cmds_addAttr_def
      cmds_setAttr_keyable_def cmds_connectAttr_def translate_only_def rotate_only_def
      scale_constraint_def follow_attr_def)

text \<open>
  On three selected controls the outcome depends on the host. Where it raises on the
  repeated connection, the script ends in the first pass of the loop and nothing is made
  for the second pair; where it does not, both pairs get their three constraints and
  the weights of the scale constraints, at positions 2 and 5, stay unconnected.
\<close>

lemma broken_FK_three_controls_raising:
  "fst (broken_FK True three_controls) = Some RuntimeError
   \<and> fk_constraints (snd (broken_FK True three_controls)) =
         [translate_only ''A_Ctrl'' ''B_Ctrl_Grp'', rotate_only ''A_Ctrl'' ''B_Ctrl_Grp'',
          scale_constraint ''A_Ctrl'' ''B_Ctrl_Grp'']
   \<and> fk_attrs (snd (broken_FK True three_controls)) (Node ''C_Ctrl'', ''Follow_Translate'') = None"
  by (simp add: broken_FK_def three_controls_def fk_step_def fk_listRelatives_parent_def
      cmds_parentConstraint_def cmds_scaleConstraint_def cmds_addAttr_def
      cmds_setAttr_keyable_def cmds_connectAttr_def translate_only_def rotate_only_def
      scale_constraint_def Let_def eval_nat_numeral)

lemma broken_FK_three_controls_tolerant:
  "fst (broken_FK False three_controls) = None
   \<and> fk_constraints (snd (broken_FK False three_controls)) =
         [translate_only ''A_Ctrl'' ''B_Ctrl_Grp'', rotate_only ''A_Ctrl'' ''B_Ctrl_Grp'',
          scale_constraint ''A_Ctrl'' ''B_Ctrl_Grp'',
          translate_only ''B_Ctrl'' ''C_Ctrl_Grp'', rotate_only ''B_Ctrl'' ''C_Ctrl_Grp'',
          scale_constraint ''B_Ctrl'' ''C_Ctrl_Grp'']
   \<and> fk_connections (snd (broken_FK False three_controls)) =
         [(Constraint 0, ''w0'') \<mapsto> (Node ''B_Ctrl'', ''Follow_Translate''),
          (Constraint 1, ''w0'') \<mapsto> (Node ''B_Ctrl'', ''Follow_Rotate''),
          (Constraint 3, ''w0'') \<mapsto> (Node ''C_Ctrl'', ''Follow_Translate''),
          (Constraint 4, ''w0'') \<mapsto> (Node ''C_Ctrl'', ''Follow_Rotate'')]"
  by (simp add: broken_FK_def three_controls_def fk_step_def fk_listRelatives_parent_def
      cmds_parentConstraint_def cmds_scaleConstraint_def cmds_addAttr_def
      cmds_setAttr_keyable_def cmds_connectAttr_def translate_only_def rotate_only_def
      scale_constraint_def Let_def eval_nat_numeral)

text \<open>
  Claim C2 fails on the script. On two selected controls \<^verbatim>\<open>A_Ctrl\<close>, \<^verbatim>\<open>B_Ctrl\<close>, each
  under its group, the script places the translate-only parent constraint, the
  rotate-only parent constraint and the scale constraint on \<^verbatim>\<open>B_Ctrl_Grp\<close> and adds
  the two attributes to \<^verbatim>\<open>B_Ctrl\<close>. Its three connections are
  \<^verbatim>\<open>Follow_Translate\<close> to the first constraint and \<^verbatim>\<open>Follow_Rotate\<close> to the second
  constraint, twice: the weight of the scale constraint, at position 2, is the
  destination of no connection. Where the host raises on the repeated connection the
  script ends there with \<^verbatim>\<open>RuntimeError\<close>; where it does not, the script runs to its
  end. The scene is the same in both cases.
\<close>

theorem broken_FK_scale_constraint_not_gated:
  "broken_FK True two_controls = (Some RuntimeError, two_controls_linked)
   \<and> broken_FK False two_controls = (None, two_controls_linked)
   \<and> fk_constraints two_controls_linked ! 2 = scale_constraint ''A_Ctrl'' ''B_Ctrl_Grp''
   \<and> fk_connections two_controls_linked (Constraint 2, ''w0'') = None
   \<and> dom (fk_connections two_controls_linked) = {(Constraint 0, ''w0''), (Constraint 1, ''w0'')}"
proof -
  have sel: "fk_selection two_controls = [''A_Ctrl'', ''B_Ctrl'']"
    by (simp add: two_controls_def)
  have run: "broken_FK r two_controls
               = (if r then Some RuntimeError else None, two_controls_linked)" for r
    unfolding broken_FK_def by (simp add: sel Let_def fk_step_B)
  have "fk_constraints two_controls_linked ! 2 = scale_constraint ''A_Ctrl'' ''B_Ctrl_Grp''"
    by (simp add: two_controls_linked_def)
  moreover have "fk_connections two_controls_linked (Constraint 2, ''w0'') = None"
    by (simp add: two_controls_linked_def)
  moreover have "dom (fk_connections two_controls_linked)
                   = {(Constraint 0, ''w0''), (Constraint 1, ''w0'')}"
    by (auto simp: two_controls_linked_def)
  ultimately show ?thesis
    by (simp add: run)
qed

end
